theory Spec2Isabelle
  imports Complex_Main "HOL-Library.Multiset"
begin

section \<open>Data model\<close>

text \<open>
  Addresses and feed ids are strings. A peer record carries the fields the scheduler,
  the CONN plugin and the legacy gossip plugin read or write; every field is optional,
  as in the TypeScript types (\<open>undefined\<close> is \<open>None\<close>). Times are milliseconds
  (\<open>Date.now()\<close>), modelled as \<open>int\<close>.
\<close>

type_synonym address = string
type_synonym feedId = string

datatype conn_state = Connecting | ConnectingFailed | Connected | Disconnected

record peer_data =
  address :: "string option"
  key :: "feedId option"
  host :: "string option"
  port :: "int option"
  source :: "string option"
  type :: "string option"
  autoconnect :: "bool option"
  stateChange :: "int option"
  stagingUpdated :: "int option"
  failure :: "int option"
  ping_rtt_mean :: "int option"
  duration_mean :: "int option"

type_synonym peer = "address \<times> peer_data"

definition emptyData :: peer_data where
  "emptyData = \<lparr>address = None, key = None, host = None, port = None, source = None,
     type = None, autoconnect = None, stateChange = None, stagingUpdated = None,
     failure = None, ping_rtt_mean = None, duration_mean = None\<rparr>"

definition mergeData :: "peer_data \<Rightarrow> peer_data \<Rightarrow> peer_data" where
  \<comment> \<open>The object spread \<open>{...old, ...new}\<close>: a field of \<open>new\<close> that is defined wins.\<close>
  "mergeData old new =
     \<lparr>address = (case address new of None \<Rightarrow> address old | x \<Rightarrow> x),
      key = (case key new of None \<Rightarrow> key old | x \<Rightarrow> x),
      host = (case host new of None \<Rightarrow> host old | x \<Rightarrow> x),
      port = (case port new of None \<Rightarrow> port old | x \<Rightarrow> x),
      source = (case source new of None \<Rightarrow> source old | x \<Rightarrow> x),
      type = (case type new of None \<Rightarrow> type old | x \<Rightarrow> x),
      autoconnect = (case autoconnect new of None \<Rightarrow> autoconnect old | x \<Rightarrow> x),
      stateChange = (case stateChange new of None \<Rightarrow> stateChange old | x \<Rightarrow> x),
      stagingUpdated = (case stagingUpdated new of None \<Rightarrow> stagingUpdated old | x \<Rightarrow> x),
      failure = (case failure new of None \<Rightarrow> failure old | x \<Rightarrow> x),
      ping_rtt_mean = (case ping_rtt_mean new of None \<Rightarrow> ping_rtt_mean old | x \<Rightarrow> x),
      duration_mean = (case duration_mean new of None \<Rightarrow> duration_mean old | x \<Rightarrow> x)\<rparr>"

datatype error = TypeError | Error string

text \<open>Configuration values are arbitrary JSON scalars; \<open>truthy\<close> is JavaScript's ToBoolean.\<close>

datatype jsval = JNull | JBool bool | JNum int | JStr string

fun truthy :: "jsval \<Rightarrow> bool" where
  "truthy JNull = False"
| "truthy (JBool b) = b"
| "truthy (JNum n) = (n \<noteq> 0)"
| "truthy (JStr s) = (s \<noteq> [])"

record gossip_config =
  seed :: "jsval option"
  pub :: "jsval option"
  autoPopulate :: "jsval option"

record timers_config =
  ping :: "int option"

record config =
  gossip :: "gossip_config option"
  timers :: "timers_config option"

text \<open>
  The state of one node: the three pools that \<open>CONN\<close> owns (association lists in
  insertion order, as the pools' \<open>entries()\<close> give them), the module-level cache of
  \<open>hasNetworkDebounced\<close> and the fields of \<open>ConnScheduler\<close>. The scheduler and the
  legacy plugin reach the pools as \<open>ssb.conn.hub()\<close>, \<open>ssb.conn.db()\<close> and
  \<open>ssb.conn.staging()\<close>; these are read as the accessors of the three pools.
\<close>

record state =
  db :: "(address \<times> peer_data) list"
  hub :: "(address \<times> conn_state \<times> peer_data) list"
  staging :: "(address \<times> peer_data) list"
  lastCheck :: int
  lastValue :: "bool option"
  conf_of :: config
  ssb_id :: feedId
  hasSsbDb :: bool
  closed :: bool
  isLoadingHops :: bool
  lastMessageAt :: int
  hasScheduledAnUpdate :: bool
  hops :: "feedId \<rightharpoonup> int"

text \<open>
  What a tick reads from outside the three source files: the clock (one value of
  \<open>Date.now()\<close> for the whole tick), \<open>ssb.ready()\<close>, \<open>hasNetwork()\<close>, the address
  check of multiserver-address, \<open>Ref.getKeyFromAddress\<close>, the \<open>ip\<close> predicates, the
  random draws of each class pass (the value \<open>Math.random()\<close> compared with 0.3, and
  the draws that decide the order \<open>shufflePeers\<close> produces), and the predicates that
  \<open>conn-scheduler.ts\<close> takes from \<open>ssb-conn-query\<close>.
\<close>

record env =
  now :: int
  ready :: bool
  hasNetwork :: bool
  hasFriends :: bool
  msAddress_check :: "address \<Rightarrow> bool"
  getKeyFromAddress :: "address \<Rightarrow> feedId option"
  ip_isLoopback :: "string option \<Rightarrow> bool"
  ip_isPrivate :: "string option \<Rightarrow> bool"
  random :: "nat \<Rightarrow> real"
  shuffleKey :: "nat \<Rightarrow> nat \<Rightarrow> int"
  hasPinged :: "peer \<Rightarrow> bool"
  hasNoAttempts :: "peer \<Rightarrow> bool"
  hasOnlyFailedAttempts :: "peer \<Rightarrow> bool"
  hasSuccessfulAttempts :: "peer \<Rightarrow> bool"
  passesExpBackoff :: "int \<Rightarrow> int \<Rightarrow> peer \<Rightarrow> bool"
  passesGroupDebounce :: "int \<Rightarrow> peer list \<Rightarrow> peer list"

record opts =
  quota :: int
  backoffStep :: int
  backoffMax :: int
  groupMin :: int

section \<open>Control flow helpers\<close>

definition thenE :: "error + 'a \<Rightarrow> ('a \<Rightarrow> error + 'b) \<Rightarrow> error + 'b" where
  "thenE m f = (case m of Inl err \<Rightarrow> Inl err | Inr x \<Rightarrow> f x)"

text \<open>\<open>forEach\<close> over a snapshot array; the second form stops at the first exception.\<close>

fun forEach :: "('a \<Rightarrow> 's \<Rightarrow> 's) \<Rightarrow> 'a list \<Rightarrow> 's \<Rightarrow> 's" where
  "forEach f [] s = s"
| "forEach f (x # xs) s = forEach f xs (f x s)"

fun forEachE :: "('a \<Rightarrow> 's \<Rightarrow> error + 's) \<Rightarrow> 'a list \<Rightarrow> 's \<Rightarrow> error + 's" where
  "forEachE f [] s = Inr s"
| "forEachE f (x # xs) s = (case f x s of Inl err \<Rightarrow> Inl err | Inr s' \<Rightarrow> forEachE f xs s')"

text \<open>\<open>Array.filter\<close> with a predicate that updates module state.\<close>

fun filterS :: "('a \<Rightarrow> 's \<Rightarrow> bool \<times> 's) \<Rightarrow> 'a list \<Rightarrow> 's \<Rightarrow> 'a list \<times> 's" where
  "filterS f [] s = ([], s)"
| "filterS f (x # xs) s =
     (case f x s of (b, s1) \<Rightarrow>
        (case filterS f xs s1 of (ys, s2) \<Rightarrow> (if b then x # ys else ys, s2)))"

section \<open>The pools (ssb-conn-hub, ssb-conn-staging, ssb-conn-query)\<close>

text \<open>
  Modelled from the spec: the Hub, Staging and Query packages are dependencies whose
  code is not among the source files. Their operations follow sections 4.2 to 4.5 of the
  specification.
\<close>

definition inConnectionState :: "conn_state \<Rightarrow> bool" where
  "inConnectionState st = (st = Connecting \<or> st = Connected)"

definition hub_getState :: "state \<Rightarrow> address \<Rightarrow> conn_state option" where
  \<comment> \<open>Modelled from the spec: \<open>getState(addr)\<close> returns the current state or \<open>undefined\<close>.\<close>
  "hub_getState s a = map_option fst (map_of (hub s) a)"

definition hub_connect :: "env \<Rightarrow> address \<Rightarrow> peer_data option \<Rightarrow> state \<Rightarrow> state" where
  \<comment> \<open>Modelled from the spec: \<open>connect(addr, data?)\<close> marks the entry \<open>connecting\<close> (the
      synchronous part of the dial) and fails when an entry exists; the entry carries the
      key of its address, as every Hub event does, and \<open>stateChange\<close> is the time of the
      transition; the interpool glue unstages the address at once.\<close>
  "hub_connect e a d s =
     (if map_of (hub s) a \<noteq> None then s
      else
        let given = (case d of None \<Rightarrow> emptyData | Some x \<Rightarrow> x);
            k = (case getKeyFromAddress e a of None \<Rightarrow> key given | Some x \<Rightarrow> Some x)
        in s\<lparr>hub := hub s @ [(a, Connecting, given\<lparr>key := k, stateChange := Some (now e)\<rparr>)],
             staging := filter (\<lambda>q. fst q \<noteq> a) (staging s)\<rparr>)"

definition hub_disconnect :: "address \<Rightarrow> state \<Rightarrow> state" where
  \<comment> \<open>Modelled from the spec: \<open>disconnect(addr)\<close> removes the entry; idempotent on
      addresses without one.\<close>
  "hub_disconnect a s = s\<lparr>hub := filter (\<lambda>q. fst q \<noteq> a) (hub s)\<rparr>"

definition staging_stage :: "env \<Rightarrow> address \<Rightarrow> peer_data \<Rightarrow> state \<Rightarrow> bool \<times> state" where
  \<comment> \<open>Modelled from the spec: \<open>stage(addr, data)\<close> inserts if not present and returns
      whether it did; staging an address that is present refreshes its record (the data
      merged over it) and returns false. \<open>stagingUpdated\<close> is the time of the last
      staging refresh.\<close>
  "staging_stage e a d s =
     (if map_of (staging s) a \<noteq> None
      then (False,
            s\<lparr>staging := map (\<lambda>q. if fst q = a
                                   then (a, (mergeData (snd q) d)\<lparr>stagingUpdated := Some (now e)\<rparr>)
                                   else q) (staging s)\<rparr>)
      else (True, s\<lparr>staging := staging s @ [(a, d\<lparr>stagingUpdated := Some (now e)\<rparr>)]\<rparr>))"

definition staging_unstage :: "address \<Rightarrow> state \<Rightarrow> bool \<times> state" where
  \<comment> \<open>Modelled from the spec: \<open>unstage(addr)\<close> removes the entry.\<close>
  "staging_unstage a s =
     (map_of (staging s) a \<noteq> None, s\<lparr>staging := filter (\<lambda>q. fst q \<noteq> a) (staging s)\<rparr>)"

definition inConnection :: "state \<Rightarrow> address \<Rightarrow> bool" where
  "inConnection s a = (case hub_getState s a of None \<Rightarrow> False | Some st \<Rightarrow> inConnectionState st)"

definition joined_hub :: "state \<Rightarrow> address \<times> conn_state \<times> peer_data \<Rightarrow> peer" where
  \<comment> \<open>Modelled from the spec: Query is a joined view; a Hub entry is seen with the DB
      record of its address under the fields the Hub holds.\<close>
  "joined_hub s q =
     (fst q, (case map_of (db s) (fst q) of None \<Rightarrow> snd (snd q)
              | Some d \<Rightarrow> mergeData d (snd (snd q))))"

definition peersInConnection :: "state \<Rightarrow> peer list" where
  \<comment> \<open>Modelled from the spec: Hub entries in \<open>connecting\<close> or \<open>connected\<close>.\<close>
  "peersInConnection s =
     map (joined_hub s) (filter (\<lambda>q. inConnectionState (fst (snd q))) (hub s))"

definition peersConnected :: "state \<Rightarrow> peer list" where
  \<comment> \<open>Modelled from the spec: Hub entries in \<open>connected\<close> only.\<close>
  "peersConnected s =
     map (joined_hub s) (filter (\<lambda>q. fst (snd q) = Connected) (hub s))"

definition peersConnectable_db :: "state \<Rightarrow> peer list" where
  \<comment> \<open>Modelled from the spec: \<open>peersConnectable('db')\<close>, the DB entries whose state is not
      \<open>connecting\<close> or \<open>connected\<close>.\<close>
  "peersConnectable_db s = filter (\<lambda>p. \<not> inConnection s (fst p)) (db s)"

definition peersConnectable_staging :: "state \<Rightarrow> peer list" where
  \<comment> \<open>Modelled from the spec: \<open>peersConnectable('staging')\<close>.\<close>
  "peersConnectable_staging s = filter (\<lambda>p. \<not> inConnection s (fst p)) (staging s)"

definition stateChangeOf :: "peer \<Rightarrow> int" where
  "stateChangeOf p = (case stateChange (snd p) of None \<Rightarrow> 0 | Some t \<Rightarrow> t)"

definition sortByStateChange :: "peer list \<Rightarrow> peer list" where
  \<comment> \<open>Modelled from the spec: stable sort ascending by \<open>stateChange\<close>; a record without
      one is ordered as time 0.\<close>
  "sortByStateChange ps = sort_key stateChangeOf ps"

section \<open>conn.ts\<close>

text \<open>The second and third argument of \<open>CONN.connect\<close>: nothing, a record or a callback.\<close>

datatype js_arg = Undefined | Object peer_data | Function

definition CONN_connect ::
  "env \<Rightarrow> address \<Rightarrow> js_arg \<Rightarrow> js_arg \<Rightarrow> state \<Rightarrow> error + state" where
  \<comment> \<open>The callbacks of the promise run after the tick and are not part of the model.\<close>
  "CONN_connect e addr second third s =
     (if second = Function \<and> third = Function
      then Inl (Error ''CONN.connect() received incorrect arguments'')
      else
        let cb = (if third = Function then third else second);
            data = (if third = Function then second else Undefined)
        in if \<not> msAddress_check e addr
           then (if cb = Function then Inr s else Inl TypeError)
           else Inr (hub_connect e addr (case data of Object d \<Rightarrow> Some d | _ \<Rightarrow> None) s))"

definition CONN_disconnect :: "env \<Rightarrow> address \<Rightarrow> js_arg \<Rightarrow> state \<Rightarrow> error + state" where
  "CONN_disconnect e addr cb s =
     (if \<not> msAddress_check e addr
      then (if cb = Function then Inr s else Inl TypeError)
      else Inr (hub_disconnect addr s))"

definition stage :: "env \<Rightarrow> address \<Rightarrow> peer_data option \<Rightarrow> state \<Rightarrow> bool \<times> state" where
  "stage e addr data s =
     (let d = (case data of None \<Rightarrow> emptyData\<lparr>type := Some ''internet''\<rparr> | Some x \<Rightarrow> x)
      in if hub_getState s addr \<noteq> None then (False, s)
         else staging_stage e addr d s)"

definition unstage :: "address \<Rightarrow> state \<Rightarrow> bool \<times> state" where
  "unstage addr s = staging_unstage addr s"

definition PING_MIN :: int where "PING_MIN = 10000"
definition PING_DEFAULT :: int where "PING_DEFAULT = 5 * 60000"
definition PING_MAX :: int where "PING_MAX = 30 * 60000"

definition CONN_ping :: "config \<Rightarrow> int" where
  \<comment> \<open>The \<open>timeout\<close> that \<open>ping()\<close> hands to pull-ping; \<open>a || DEFAULT\<close> takes the
      default for every falsy \<open>a\<close>.\<close>
  "CONN_ping c =
     (let timeout = (case timers c of None \<Rightarrow> PING_DEFAULT
                     | Some t \<Rightarrow> (case ping t of None \<Rightarrow> PING_DEFAULT
                                  | Some p \<Rightarrow> if p = 0 then PING_DEFAULT else p))
      in max PING_MIN (min timeout PING_MAX))"

section \<open>conn-scheduler.ts\<close>

definition hasNetworkDebounced :: "env \<Rightarrow> state \<Rightarrow> bool option \<times> state" where
  "hasNetworkDebounced e s =
     (let s' = (if lastCheck s + 1000 < now e
                then s\<lparr>lastCheck := now e, lastValue := Some (hasNetwork e)\<rparr> else s)
      in (lastValue s', s'))"

definition isOffline :: "env \<Rightarrow> peer \<Rightarrow> state \<Rightarrow> bool \<times> state" where
  "isOffline e p s =
     (if ip_isLoopback e (host (snd p)) \<or> host (snd p) = Some ''localhost'' then (False, s)
      else (case hasNetworkDebounced e s of (v, s') \<Rightarrow> (v \<noteq> Some True, s')))"

definition canBeConnected :: "env \<Rightarrow> peer \<Rightarrow> state \<Rightarrow> bool \<times> state" where
  "canBeConnected e p s = (case isOffline e p s of (off, s') \<Rightarrow> (\<not> off, s'))"

definition isLocal :: "env \<Rightarrow> peer \<Rightarrow> bool" where
  "isLocal e p =
     (\<not> ip_isLoopback e (host (snd p)) \<and> ip_isPrivate e (host (snd p)) \<and>
      (source (snd p) = Some ''local'' \<or> type (snd p) = Some ''lan''))"

definition isLegacy :: "env \<Rightarrow> peer \<Rightarrow> bool" where
  "isLegacy e p = (hasSuccessfulAttempts e p \<and> \<not> hasPinged e p)"

definition take' :: "int \<Rightarrow> 'a list \<Rightarrow> 'a list" where
  "take' n arr = take (nat (max n 0)) arr"

definition shufflePeers :: "env \<Rightarrow> nat \<Rightarrow> peer list \<Rightarrow> peer list" where
  \<comment> \<open>\<open>Array.sort\<close> with a comparator that ignores its arguments and draws at random:
      the result is the input in an order the draws decide. The draws are the keys
      \<open>shuffleKey e i\<close> of the positions, and the order is ascending in them.\<close>
  "shufflePeers e i peers =
     map snd (sort_key fst (zip (map (shuffleKey e i) [0..<length peers]) peers))"

definition neverJustOne :: "int \<Rightarrow> int" where
  "neverJustOne x = (if x = 1 then x + 1 else x)"

definition minute :: int where "minute = 60000"
definition hour :: int where "hour = 60 * 60000"

definition conf :: "state \<Rightarrow> (gossip_config \<Rightarrow> jsval option) \<Rightarrow> jsval \<Rightarrow> jsval" where
  "conf s name def =
     (case gossip (conf_of s) of None \<Rightarrow> def
      | Some g \<Rightarrow> (case name g of None \<Rightarrow> def
                   | Some v \<Rightarrow> if v = JNull \<or> v = JStr [] then def else v))"

definition isCurrentlyDownloading :: "env \<Rightarrow> state \<Rightarrow> bool" where
  "isCurrentlyDownloading e s = (lastMessageAt s \<noteq> 0 \<and> lastMessageAt s > now e - 500)"

definition weBlockThem :: "state \<Rightarrow> peer \<Rightarrow> bool" where
  "weBlockThem s p =
     (case key (snd p) of None \<Rightarrow> False
      | Some k \<Rightarrow> if k = [] then False else hops s k = Some (- 1))"

definition weFollowThem :: "state \<Rightarrow> peer \<Rightarrow> bool" where
  "weFollowThem s p =
     (case key (snd p) of None \<Rightarrow> False
      | Some k \<Rightarrow> if k = [] then False
                  else (case hops s k of None \<Rightarrow> False | Some h \<Rightarrow> h > 0 \<and> h \<le> 1))"

text \<open>The local constants and the two pipelines of \<open>updateTheseConnections\<close>.\<close>

definition excess :: "opts \<Rightarrow> peer list \<Rightarrow> int" where
  "excess os peersUp =
     (if int (length peersUp) > quota os * 2 then int (length peersUp) - quota os else 0)"

definition freeSlots :: "opts \<Rightarrow> peer list \<Rightarrow> int" where
  "freeSlots os peersUp = neverJustOne (max (quota os - int (length peersUp)) 0)"

definition toDisconnect :: "opts \<Rightarrow> peer list \<Rightarrow> peer list" where
  "toDisconnect os peersUp = take' (excess os peersUp) (sortByStateChange peersUp)"

definition suitable :: "env \<Rightarrow> opts \<Rightarrow> peer list \<Rightarrow> state \<Rightarrow> peer list \<times> state" where
  \<comment> \<open>The filters on \<open>peersDown\<close>, in the order of the source.\<close>
  "suitable e os peersDown s =
     (case filterS (canBeConnected e) (filter (\<lambda>p. \<not> weBlockThem s p) peersDown) s of
        (online, s') \<Rightarrow>
          (filter (passesExpBackoff e (backoffStep os) (backoffMax os))
             (passesGroupDebounce e (groupMin os)
                (filter (\<lambda>p. autoconnect (snd p) \<noteq> Some False) online)), s'))"

definition ordered :: "env \<Rightarrow> nat \<Rightarrow> peer list \<Rightarrow> peer list" where
  \<comment> \<open>With 30% chance, ignore 'bestness' and just choose randomly.\<close>
  "ordered e i peers =
     (if random e i \<le> 3 / 10 then shufflePeers e i peers else sortByStateChange peers)"

definition toConnect :: "env \<Rightarrow> nat \<Rightarrow> opts \<Rightarrow> peer list \<Rightarrow> peer list \<Rightarrow> state \<Rightarrow> peer list \<times> state" where
  "toConnect e i os peersUp peersDown s =
     (case suitable e os peersDown s of
        (cands, s') \<Rightarrow> (take' (freeSlots os peersUp) (ordered e i cands), s'))"

definition updateTheseConnections ::
  "env \<Rightarrow> nat \<Rightarrow> (peer \<Rightarrow> bool) \<Rightarrow> opts \<Rightarrow> state \<Rightarrow> error + state" where
  "updateTheseConnections e i test os s =
     (let peersUp = filter test (peersInConnection s);
          peersDown = filter test (peersConnectable_db s)
      in thenE (forEachE (\<lambda>p. CONN_disconnect e (fst p) Undefined) (toDisconnect os peersUp) s)
           (\<lambda>s1. case toConnect e i os peersUp peersDown s1 of
                    (dial, s2) \<Rightarrow>
                      forEachE (\<lambda>p. CONN_connect e (fst p) (Object (snd p)) Undefined) dial s2))"

definition olderThan :: "env \<Rightarrow> int \<Rightarrow> int option \<Rightarrow> bool" where
  \<comment> \<open>\<open>t + age < Date.now()\<close>; with \<open>t\<close> undefined the sum is NaN and the test is false.\<close>
  "olderThan e age t = (case t of None \<Rightarrow> False | Some x \<Rightarrow> x + age < now e)"

definition toStage :: "state \<Rightarrow> peer list" where
  \<comment> \<open>The DB peers that \<open>updateStagingNow\<close> stages: connectable, not blocked and with
      \<open>autoconnect = false\<close>.\<close>
  "toStage s =
     filter (\<lambda>p. autoconnect (snd p) = Some False)
       (filter (\<lambda>p. \<not> weBlockThem s p) (peersConnectable_db s))"

definition updateStagingNow :: "env \<Rightarrow> state \<Rightarrow> state" where
  "updateStagingNow e s =
     (let s1 = forEach (\<lambda>p st. snd (stage e (fst p) (Some (snd p)) st)) (toStage s) s;
          s2 = forEach (\<lambda>p st. snd (unstage (fst p) st))
                 (filter (weBlockThem s1) (peersConnectable_staging s1)) s1;
          s3 = forEach (\<lambda>p st. snd (unstage (fst p) st))
                 (filter (\<lambda>p. olderThan e 10000 (stagingUpdated (snd p)))
                    (filter (\<lambda>p. type (snd p) = Some ''lan'') (peersConnectable_staging s2))) s2;
          s4 = forEach (\<lambda>p st. snd (unstage (fst p) st))
                 (filter (\<lambda>p. olderThan e 30000 (stagingUpdated (snd p)))
                    (filter (\<lambda>p. type (snd p) = Some ''bt'') (peersConnectable_staging s3))) s3
      in s4)"

definition classPasses :: "env \<Rightarrow> state \<Rightarrow> error + state" where
  \<comment> \<open>The seven calls of \<open>updateTheseConnections\<close> at the head of \<open>updateHubNow\<close>.\<close>
  "classPasses e s =
     thenE (if truthy (conf s seed (JBool True))
            then updateTheseConnections e 0 (\<lambda>p. source (snd p) = Some ''seed'')
                   \<lparr>quota = 3, backoffStep = 2000, backoffMax = 10 * minute, groupMin = 1000\<rparr> s
            else Inr s)
    (\<lambda>s1. thenE (if length (peersInConnection s1) = 0
                  then updateTheseConnections e 1 (\<lambda>p. True)
                         \<lparr>quota = 1, backoffStep = 1000, backoffMax = 6000, groupMin = 0\<rparr> s1
                  else Inr s1)
    (\<lambda>s2. thenE (updateTheseConnections e 2 (\<lambda>p. type (snd p) = Some ''room'')
                   \<lparr>quota = 10, backoffStep = 5000, backoffMax = 5 * minute, groupMin = 5000\<rparr> s2)
    (\<lambda>s3. thenE (updateTheseConnections e 3 (hasPinged e)
                   \<lparr>quota = 2, backoffStep = 10000, backoffMax = 10 * minute, groupMin = 5000\<rparr> s3)
    (\<lambda>s4. thenE (updateTheseConnections e 4 (hasNoAttempts e)
                   \<lparr>quota = 2, backoffStep = 30000, backoffMax = 30 * minute, groupMin = 15000\<rparr> s4)
    (\<lambda>s5. thenE (updateTheseConnections e 5 (hasOnlyFailedAttempts e)
                   \<lparr>quota = 3, backoffStep = 1 * minute, backoffMax = 3 * hour,
                    groupMin = 5 * minute\<rparr> s5)
    (\<lambda>s6. updateTheseConnections e 6 (isLegacy e)
             \<lparr>quota = 1, backoffStep = 4 * minute, backoffMax = 3 * hour,
              groupMin = 5 * minute\<rparr> s6))))))"

definition connectStagedFollowed :: "env \<Rightarrow> state \<Rightarrow> error + state" where
  \<comment> \<open>Automatically connect to (five) staged peers we follow.\<close>
  "connectStagedFollowed e s =
     forEachE (\<lambda>p. CONN_connect e (fst p) (Object (snd p)) Undefined)
       (take' 5 (filter (weFollowThem s) (peersConnectable_staging s))) s"

definition purgeBlocked :: "env \<Rightarrow> state \<Rightarrow> error + state" where
  \<comment> \<open>Purge connected peers that are now blocked.\<close>
  "purgeBlocked e s =
     forEachE (\<lambda>p. CONN_disconnect e (fst p) Undefined)
       (filter (weBlockThem s) (peersInConnection s)) s"

definition purgeFrustrating :: "env \<Rightarrow> state \<Rightarrow> error + state" where
  \<comment> \<open>Purge some ongoing frustrating connection attempts.\<close>
  "purgeFrustrating e s =
     forEachE (\<lambda>p. CONN_disconnect e (fst p) Undefined)
       (filter (\<lambda>p. olderThan e 10000 (stateChange (snd p)))
          (filter (\<lambda>p. let permanent = (hasPinged e p \<or> isLocal e p);
                            st = hub_getState s (fst p)
                        in \<not> permanent \<or> st = Some Connecting)
             (peersInConnection s))) s"

definition purgeLongLived :: "env \<Rightarrow> state \<Rightarrow> error + state" where
  \<comment> \<open>Purge an internet connection after it has been up for 1h.\<close>
  "purgeLongLived e s =
     forEachE (\<lambda>p. CONN_disconnect e (fst p) Undefined)
       (filter (\<lambda>p. olderThan e (1 * hour) (stateChange (snd p)))
          (filter (\<lambda>p. type (snd p) \<noteq> Some ''bt'' \<and> type (snd p) \<noteq> Some ''lan'')
             (peersConnected s))) s"

definition updateHubNow :: "env \<Rightarrow> state \<Rightarrow> error + state" where
  "updateHubNow e s =
     thenE (classPasses e s)
    (\<lambda>s1. thenE (connectStagedFollowed e s1)
    (\<lambda>s2. thenE (purgeBlocked e s2)
    (\<lambda>s3. thenE (purgeFrustrating e s3)
    (\<lambda>s4. purgeLongLived e s4))))"

definition suppressed :: "env \<Rightarrow> state \<Rightarrow> bool" where
  \<comment> \<open>The three early returns of \<open>updateNow\<close>.\<close>
  "suppressed e s =
     ((hasSsbDb s \<and> \<not> ready e) \<or> isCurrentlyDownloading e s \<or> isLoadingHops s)"

definition updateNow :: "env \<Rightarrow> state \<Rightarrow> error + state" where
  "updateNow e s =
     (if hasSsbDb s \<and> \<not> ready e then Inr s
      else if isCurrentlyDownloading e s then Inr s
      else if isLoadingHops s then Inr s
      else updateHubNow e (updateStagingNow e s))"

record msg =
  author :: feedId
  content_type :: "string option"

definition loadHops :: "env \<Rightarrow> state \<Rightarrow> state" where
  \<comment> \<open>The synchronous part: the request for the hops table is sent, its answer comes
      later (\<open>hopsLoaded\<close>).\<close>
  "loadHops e s = (if \<not> hasFriends e then s else s\<lparr>isLoadingHops := True\<rparr>)"

definition hopsLoaded :: "(feedId \<rightharpoonup> int) option \<Rightarrow> state \<Rightarrow> state" where
  \<comment> \<open>The callback of \<open>ssb.friends.hops\<close>: \<open>None\<close> is an error, which leaves the flag set.\<close>
  "hopsLoaded r s = (case r of None \<Rightarrow> s | Some h \<Rightarrow> s\<lparr>hops := h, isLoadingHops := False\<rparr>)"

definition onPost :: "env \<Rightarrow> msg \<Rightarrow> state \<Rightarrow> state" where
  \<comment> \<open>The \<open>ssb.post\<close> hook installed by the constructor.\<close>
  "onPost e m s =
     (let s1 = (if author m \<noteq> ssb_id s then s\<lparr>lastMessageAt := now e\<rparr> else s)
      in if content_type m = Some ''contact'' then loadHops e s1 else s1)"

definition networkUp :: "env \<Rightarrow> state \<Rightarrow> bool" where
  \<comment> \<open>What \<open>hasNetworkDebounced\<close> answers during a tick that starts in state \<open>s\<close>.\<close>
  "networkUp e s =
     (if lastCheck s + 1000 < now e then hasNetwork e else lastValue s = Some True)"

definition online :: "env \<Rightarrow> state \<Rightarrow> peer \<Rightarrow> bool" where
  "online e s p =
     (ip_isLoopback e (host (snd p)) \<or> host (snd p) = Some ''localhost'' \<or> networkUp e s)"

definition poolsDisjoint :: "state \<Rightarrow> bool" where
  \<comment> \<open>Pool membership invariant 1 of the spec: no staged address is in connection.\<close>
  "poolsDisjoint s = list_all (\<lambda>p. \<not> inConnection s (fst p)) (staging s)"

definition hubStep :: "state \<Rightarrow> state \<Rightarrow> bool" where
  \<comment> \<open>What every step of \<open>updateHubNow\<close> keeps: the hops table, and no new staged entry.\<close>
  "hubStep s s' = (hops s' = hops s \<and> set (staging s') \<subseteq> set (staging s))"

definition hubKeyed :: "env \<Rightarrow> state \<Rightarrow> bool" where
  \<comment> \<open>What \<open>hub_connect\<close> establishes: a Hub entry whose address yields a key carries
      that key.\<close>
  "hubKeyed e s =
     list_all (\<lambda>q. case getKeyFromAddress e (fst q) of None \<Rightarrow> True
                    | Some k \<Rightarrow> key (snd (snd q)) = Some k) (hub s)"

definition spec_blockedAddress :: "env \<Rightarrow> state \<Rightarrow> address \<Rightarrow> bool" where
  \<comment> \<open>Modelled from the spec: a blocked address, hops = -1 for its key.\<close>
  "spec_blockedAddress e s a =
     (case getKeyFromAddress e a of None \<Rightarrow> False
      | Some k \<Rightarrow> k \<noteq> [] \<and> hops s k = Some (- 1))"

section \<open>gossip.ts\<close>

text \<open>
  The functions of \<open>ssb-ref\<close> that the legacy plugin calls are parameters. The argument of
  the legacy methods is a peer object, a string, or a value that is neither (\<open>undefined\<close>,
  a number, ...). Deprecation warnings on the console are not part of the model.
\<close>

record ssb_ref =
  ref_isAddress :: "string \<Rightarrow> bool"
  ref_isFeed :: "string \<Rightarrow> bool"
  ref_parseAddress :: "string \<Rightarrow> peer_data option"
  ref_getKeyFromAddress :: "string \<Rightarrow> string option"

datatype addr_arg = AddrPeer peer_data | AddrString string | AddrOther

record notification =
  n_type :: string
  n_peer :: peer_data
  n_state :: "conn_state option"
  n_source :: string

record gossip_state =
  node :: state
  notified :: "notification list"

text \<open>JavaScript's \<open>indexOf\<close>, \<open>substring\<close>, \<open>split\<close>, \<open>endsWith\<close> and number to string.\<close>

fun indexOf :: "char \<Rightarrow> string \<Rightarrow> int" where
  "indexOf c [] = - 1"
| "indexOf c (x # xs) =
     (if x = c then 0 else (let r = indexOf c xs in if r < 0 then - 1 else r + 1))"

definition substring :: "int \<Rightarrow> int \<Rightarrow> string \<Rightarrow> string" where
  \<comment> \<open>Arguments below 0 count as 0, and the two are swapped when the first is larger.\<close>
  "substring a b s =
     (let n = int (length s); a' = min (max a 0) n; b' = min (max b 0) n
      in take (nat (max a' b' - min a' b')) (drop (nat (min a' b')) s))"

fun js_split :: "char \<Rightarrow> string \<Rightarrow> string list" where
  "js_split c [] = [[]]"
| "js_split c (x # xs) =
     (if x = c then [] # js_split c xs
      else (case js_split c xs of [] \<Rightarrow> [[x]] | w # ws \<Rightarrow> (x # w) # ws))"

definition endsWith :: "string \<Rightarrow> string \<Rightarrow> bool" where
  "endsWith suffix s = (length suffix \<le> length s \<and> drop (length s - length suffix) s = suffix)"

definition digitChar :: "nat \<Rightarrow> char" where
  "digitChar d = char_of (48 + d)"

function showNat :: "nat \<Rightarrow> string" where
  "showNat n = (if n < 10 then [digitChar n] else showNat (n div 10) @ [digitChar (n mod 10)])"
  by pat_completeness auto
termination
  by (relation "measure id") auto

declare showNat.simps [simp del]

definition showInt :: "int \<Rightarrow> string" where
  "showInt i = (if i < 0 then CHR ''-'' # showNat (nat (- i)) else showNat (nat i))"

definition joined :: "string option \<Rightarrow> string" where
  \<comment> \<open>How \<open>Array.join\<close> prints an element: \<open>undefined\<close> is the empty string.\<close>
  "joined x = (case x of None \<Rightarrow> [] | Some v \<Rightarrow> v)"

definition toBase64 :: "string option \<Rightarrow> error + string" where
  \<comment> \<open>On \<open>undefined\<close> the call \<open>s.toString('base64')\<close> throws.\<close>
  "toBase64 s = (case s of None \<Rightarrow> Inl TypeError
                 | Some k \<Rightarrow> Inr (substring 1 (indexOf CHR ''.'' k) k))"

definition toAddressString :: "ssb_ref \<Rightarrow> peer_data \<Rightarrow> error + string" where
  \<comment> \<open>The branch for a peer object; a string is returned as it is (see \<open>validateAddr\<close>).\<close>
  "toAddressString r a =
     (if (case address a of None \<Rightarrow> False | Some x \<Rightarrow> ref_isAddress r x)
      then Inr (joined (address a))
      else if source a = Some ''dht''
      then Inr (''dht'' @ '':'' @ joined (host a) @ ''~'' @ ''noauth'')
      else
        let protocol = (if (case host a of None \<Rightarrow> False
                            | Some h \<Rightarrow> h \<noteq> [] \<and> endsWith ''.onion'' h)
                        then ''onion'' else ''net'')
        in case toBase64 (key a) of Inl err \<Rightarrow> Inl err
           | Inr b \<Rightarrow>
               Inr (protocol @ '':'' @ joined (host a) @ '':''
                    @ joined (map_option showInt (port a)) @ ''~'' @ ''shs'' @ '':'' @ b))"

definition isDhtAddress :: "string \<Rightarrow> bool" where
  "isDhtAddress addr = (take 4 addr = ''dht:'')"

definition parseDhtAddress :: "string \<Rightarrow> error + peer_data" where
  \<comment> \<open>With fewer than three parts \<open>remoteId\<close> is undefined and \<open>remoteId[0]\<close> throws.\<close>
  "parseDhtAddress addr =
     (let transport = hd (js_split CHR ''~'' addr);
          parts = js_split CHR '':'' transport
      in if hd parts \<noteq> ''dht'' then Inl (Error (''Invalid DHT address '' @ addr))
         else (case parts of
                 dhtTag # sd # remoteId # rest \<Rightarrow>
                   Inr (emptyData\<lparr>host := Some (sd @ '':'' @ remoteId), port := Some 0,
                          key := Some (if take 1 remoteId = ''@'' then remoteId
                                       else ''@'' @ remoteId),
                          source := Some ''dht''\<rparr>)
               | _ \<Rightarrow> Inl TypeError))"

definition parseAddress :: "ssb_ref \<Rightarrow> string \<Rightarrow> error + peer_data option" where
  "parseAddress r a =
     (if isDhtAddress a then map_sum id Some (parseDhtAddress a)
      else (case ref_parseAddress r a of
              Some legacyParsing \<Rightarrow> Inr (Some legacyParsing)
            | None \<Rightarrow>
                if ref_isAddress r a
                then Inr (Some (emptyData\<lparr>key := ref_getKeyFromAddress r a\<rparr>))
                else Inr None))"

definition validateAddr :: "ssb_ref \<Rightarrow> addr_arg \<Rightarrow> error + (string \<times> peer_data)" where
  \<comment> \<open>Reading \<open>parsed.key\<close> of an address that did not parse throws.\<close>
  "validateAddr r addr =
     (if addr = AddrOther \<or> addr = AddrString []
      then Inl (Error ''address should be an object or string'')
      else
        case (case addr of AddrString s \<Rightarrow> Inr s | AddrPeer p \<Rightarrow> toAddressString r p
              | AddrOther \<Rightarrow> Inl TypeError) of
          Inl err \<Rightarrow> Inl err
        | Inr addressString \<Rightarrow>
            (case (case addr of AddrPeer p \<Rightarrow> Inr (Some p) | _ \<Rightarrow> parseAddress r addressString) of
               Inl err \<Rightarrow> Inl err
             | Inr None \<Rightarrow> Inl TypeError
             | Inr (Some parsed) \<Rightarrow>
                 if key parsed = None \<or> key parsed = Some []
                 then Inl (Error ''address must have ed25519 key'')
                 else if \<not> ref_isFeed r (joined (key parsed))
                 then Inl (Error ''key must be ed25519 public id'')
                 else Inr (addressString, parsed)))"

text \<open>
  Modelled from the spec: the address DB (\<open>ssb-conn-db\<close>) is a dependency; \<open>set\<close> is an
  upsert that merges the data over any existing record.
\<close>

definition db_has :: "state \<Rightarrow> address \<Rightarrow> bool" where
  "db_has s a = (map_of (db s) a \<noteq> None)"

definition db_get :: "state \<Rightarrow> address \<Rightarrow> peer_data option" where
  "db_get s a = map_of (db s) a"

definition db_set :: "address \<Rightarrow> peer_data \<Rightarrow> state \<Rightarrow> state" where
  "db_set a d s =
     (if db_has s a
      then s\<lparr>db := map (\<lambda>q. if fst q = a then (a, mergeData (snd q) d) else q) (db s)\<rparr>
      else s\<lparr>db := db s @ [(a, d)]\<rparr>)"

definition orManual :: "string option \<Rightarrow> string" where
  \<comment> \<open>\<open>source || 'manual'\<close>\<close>
  "orManual src = (case src of None \<Rightarrow> ''manual'' | Some x \<Rightarrow> if x = [] then ''manual'' else x)"

definition add ::
  "ssb_ref \<Rightarrow> addr_arg \<Rightarrow> string option \<Rightarrow> gossip_state \<Rightarrow> error + (peer_data option \<times> gossip_state)" where
  "add r addr src g =
     (case validateAddr r addr of
        Inl err \<Rightarrow> Inl err
      | Inr (addressString, parsed) \<Rightarrow>
          if key parsed = Some (ssb_id (node g)) then Inr (None, g)
          else if src = Some ''local'' then Inr (None, g)
          else if db_has (node g) addressString
          then Inr (db_get (node g) addressString, g)
          else
            let s1 = db_set addressString
                       (emptyData\<lparr>host := host parsed, port := port parsed, key := key parsed,
                          address := Some addressString, source := src\<rparr>) (node g);
                n = \<lparr>n_type = ''discover'', n_peer = parsed\<lparr>source := Some (orManual src)\<rparr>,
                     n_state = hub_getState (node g) addressString, n_source = orManual src\<rparr>
            in Inr ((case db_get s1 addressString of None \<Rightarrow> Some parsed | x \<Rightarrow> x),
                    g\<lparr>node := s1, notified := notified g @ [n]\<rparr>))"

section \<open>A sample node\<close>

text \<open>
  Modelled from the spec: the predicates of \<open>ssb-conn-query\<close> as section 4.4 words them,
  for the sample environment in which the theorems below are instantiated.
\<close>

definition spec_hasPinged :: "peer \<Rightarrow> bool" where
  \<comment> \<open>Modelled from the spec: \<open>ping.rtt.mean\<close> is defined.\<close>
  "spec_hasPinged p = (ping_rtt_mean (snd p) \<noteq> None)"

definition spec_hasNoAttempts :: "peer \<Rightarrow> bool" where
  \<comment> \<open>Modelled from the spec: no recorded dial attempts (no state transition recorded).\<close>
  "spec_hasNoAttempts p = (stateChange (snd p) = None)"

definition spec_hasSuccessfulAttempts :: "peer \<Rightarrow> bool" where
  \<comment> \<open>Modelled from the spec: at least one connection completed.\<close>
  "spec_hasSuccessfulAttempts p =
     (case duration_mean (snd p) of None \<Rightarrow> False | Some d \<Rightarrow> d > 0)"

definition spec_hasOnlyFailedAttempts :: "peer \<Rightarrow> bool" where
  \<comment> \<open>Modelled from the spec: at least one attempt, all failed.\<close>
  "spec_hasOnlyFailedAttempts p =
     (stateChange (snd p) \<noteq> None \<and> \<not> spec_hasSuccessfulAttempts p)"

definition spec_passesExpBackoff :: "int \<Rightarrow> int \<Rightarrow> int \<Rightarrow> peer \<Rightarrow> bool" where
  \<comment> \<open>Modelled from the spec: \<open>now - lastAttempt \<ge> min(step * 2^failures, max)\<close>.\<close>
  "spec_passesExpBackoff t step mx p =
     (t - stateChangeOf p \<ge>
        min (step * 2 ^ nat (case failure (snd p) of None \<Rightarrow> 0 | Some f \<Rightarrow> f)) mx)"

definition groupOf :: "peer \<Rightarrow> string option" where
  \<comment> \<open>Modelled from the spec: grouping is by host, or by key when host is absent.\<close>
  "groupOf p = (case host (snd p) of Some h \<Rightarrow> Some h | None \<Rightarrow> key (snd p))"

fun firstOfGroups :: "string option list \<Rightarrow> peer list \<Rightarrow> peer list" where
  "firstOfGroups seen [] = []"
| "firstOfGroups seen (p # ps) =
     (if groupOf p \<in> set seen then firstOfGroups seen ps
      else p # firstOfGroups (groupOf p # seen) ps)"

definition spec_passesGroupDebounce :: "int \<Rightarrow> int \<Rightarrow> peer list \<Rightarrow> peer list" where
  \<comment> \<open>Modelled from the spec: at most one address per debounce group passes, and none of
      a group with a state change in the last \<open>min\<close> ms.\<close>
  "spec_passesGroupDebounce t mn ps =
     firstOfGroups []
       (filter (\<lambda>p. list_all (\<lambda>q. groupOf q \<noteq> groupOf p \<or> stateChangeOf q + mn \<le> t) ps) ps)"

definition sampleEnv :: "int \<Rightarrow> env" where
  "sampleEnv t =
     \<lparr>now = t, ready = True, hasNetwork = True, hasFriends = True,
      msAddress_check = (\<lambda>a. CHR ''~'' \<in> set a),
      getKeyFromAddress = (\<lambda>a. Some (''@'' @ last (js_split CHR '':'' a) @ ''.ed25519'')),
      ip_isLoopback = (\<lambda>h. h = Some ''127.0.0.1''),
      ip_isPrivate = (\<lambda>h. case h of None \<Rightarrow> False | Some x \<Rightarrow> take 8 x = ''192.168.''),
      random = (\<lambda>i. 1 / 2), shuffleKey = (\<lambda>i k. - int k),
      hasPinged = spec_hasPinged, hasNoAttempts = spec_hasNoAttempts,
      hasOnlyFailedAttempts = spec_hasOnlyFailedAttempts,
      hasSuccessfulAttempts = spec_hasSuccessfulAttempts,
      passesExpBackoff = spec_passesExpBackoff t,
      passesGroupDebounce = spec_passesGroupDebounce t\<rparr>"

definition sampleState :: state where
  "sampleState =
     \<lparr>db = [], hub = [], staging = [], lastCheck = 0, lastValue = None,
      conf_of = \<lparr>gossip = None, timers = None\<rparr>, ssb_id = ''@me.ed25519'',
      hasSsbDb = True, closed = False, isLoadingHops = False, lastMessageAt = 0,
      hasScheduledAnUpdate = False, hops = Map.empty\<rparr>"

definition samplePeer :: "string \<Rightarrow> int \<Rightarrow> peer" where
  \<comment> \<open>A peer named \<open>n\<close> whose last state change was at \<open>t\<close>.\<close>
  "samplePeer n t =
     (''net:'' @ n @ ''.example:8008~shs:'' @ n,
      emptyData\<lparr>key := Some (''@'' @ n @ ''.ed25519''), host := Some (n @ ''.example''),
        port := Some 8008, stateChange := Some t\<rparr>)"

definition sampleOpts :: "int \<Rightarrow> opts" where
  "sampleOpts q = \<lparr>quota = q, backoffStep = 1000, backoffMax = 6000, groupMin = 0\<rparr>"



definition sampleLan :: peer where
  "sampleLan = (''net:192.168.1.5:8008~shs:k'',
     emptyData\<lparr>key := Some ''@k.ed25519'', type := Some ''lan'', stagingUpdated := Some 10000\<rparr>)"

definition sampleStaged :: state where
  "sampleStaged = sampleState\<lparr>staging := [sampleLan]\<rparr>"

definition sampleBlockedNode :: state where
  "sampleBlockedNode = sampleState
     \<lparr>hub := [(fst (samplePeer ''x'' 19000), Connected,
                (snd (samplePeer ''x'' 19000))\<lparr>ping_rtt_mean := Some 5\<rparr>),
              (fst (samplePeer ''y'' 19000), Connected,
                (snd (samplePeer ''y'' 19000))\<lparr>ping_rtt_mean := Some 5\<rparr>)],
      staging := [(fst (samplePeer ''z'' 19000),
                   (snd (samplePeer ''z'' 19000))\<lparr>stagingUpdated := Some 19000\<rparr>),
                  (fst (samplePeer ''w'' 19000),
                   (snd (samplePeer ''w'' 19000))\<lparr>stagingUpdated := Some 19000\<rparr>)],
      hops := [''@x.ed25519'' \<mapsto> - 1, ''@z.ed25519'' \<mapsto> - 1]\<rparr>"

definition sampleAddressBook :: state where
  \<comment> \<open>The node \<open>sampleStaged\<close> whose address book holds the staged LAN address with
      \<open>autoconnect = false\<close>.\<close>
  "sampleAddressBook =
     sampleStaged\<lparr>db := [(fst sampleLan, emptyData\<lparr>autoconnect := Some False\<rparr>)]\<rparr>"

definition sampleDialed :: state where
  \<comment> \<open>A node whose only DB peer was dialed by the tick at time 20000; the dial went
      through, and the key of the peer was blocked after that.\<close>
  "sampleDialed =
     (case updateNow (sampleEnv 20000) (sampleState\<lparr>db := [samplePeer ''x'' 1000]\<rparr>) of
        Inl err \<Rightarrow> sampleState
      | Inr s \<Rightarrow> s\<lparr>hub := map (\<lambda>q. (fst q, Connected, snd (snd q))) (hub s),
                   hops := [''@x.ed25519'' \<mapsto> - 1]\<rparr>)"

definition sampleKeyless :: state where
  \<comment> \<open>A node that blocks the key \<open>@z\<close> and where the address of \<open>@z\<close> was staged at time
      19000 with the default record of \<open>CONN.stage\<close>.\<close>
  "sampleKeyless =
     snd (stage (sampleEnv 19000) (fst (samplePeer ''z'' 0)) None
            (sampleState\<lparr>hops := [''@z.ed25519'' \<mapsto> - 1]\<rparr>))"

definition sampleCrowded :: state where
  \<comment> \<open>Three peers connected, \<open>b\<close> the oldest and \<open>a\<close> the youngest.\<close>
  "sampleCrowded =
     sampleState\<lparr>hub := map (\<lambda>p. (fst p, Connected, snd p))
        [samplePeer ''a'' 30, samplePeer ''b'' 10, samplePeer ''c'' 20]\<rparr>"



definition sampleRef :: ssb_ref where
  "sampleRef =
     \<lparr>ref_isAddress = (\<lambda>a. CHR ''~'' \<in> set a),
      ref_isFeed = (\<lambda>k. take 1 k = ''@'' \<and> endsWith ''.ed25519'' k),
      ref_parseAddress = (\<lambda>a. None),
      ref_getKeyFromAddress =
        (\<lambda>a. Some (''@'' @ last (js_split CHR '':'' a) @ ''.ed25519''))\<rparr>"

definition sampleGossip :: gossip_state where
  "sampleGossip = \<lparr>node = sampleState, notified = []\<rparr>"

section \<open>The quota engine: one class pass\<close>

lemma neverJustOne_cases: "neverJustOne x = (if x = 1 then 2 else x)"
  by (simp add: neverJustOne_def)

lemma length_sortByStateChange: "length (sortByStateChange ps) = length ps"
  by (simp add: sortByStateChange_def)

lemma sorted_take_drop_le:
  assumes "sorted (map f xs)" and "p \<in> set (take n xs)" and "q \<in> set (drop n xs)"
  shows "f p \<le> f q"
proof -
  have "sorted (map f (take n xs) @ map f (drop n xs))"
    using assms(1) by (simp flip: map_append)
  then show ?thesis
    using assms(2,3) by (auto simp: sorted_append)
qed

text \<open>
  C1. A class pass first disconnects the excess and then dials the first \<open>freeSlots\<close>
  of the ordered candidates, where \<open>up\<close> are the peers in connection that match the
  class predicate. The number of free slots handed to the selection is
  \<open>max (quota - |up|) 0\<close>, except that exactly 1 becomes 2. The promotion comes after the
  clamp, and the number of excess disconnections does not go through it: the pass
  disconnects \<open>excess\<close> peers (as many as there are), also when \<open>excess\<close> is 1.
\<close>

theorem free_slots_never_just_one:
  "updateTheseConnections e i test os s =
     thenE (forEachE (\<lambda>p. CONN_disconnect e (fst p) Undefined)
              (toDisconnect os (filter test (peersInConnection s))) s)
       (\<lambda>s1. forEachE (\<lambda>p. CONN_connect e (fst p) (Object (snd p)) Undefined)
          (fst (toConnect e i os (filter test (peersInConnection s))
                  (filter test (peersConnectable_db s)) s1))
          (snd (toConnect e i os (filter test (peersInConnection s))
                  (filter test (peersConnectable_db s)) s1)))
   \<and> fst (toConnect e i os up down s) =
       take (nat (freeSlots os up)) (ordered e i (fst (suitable e os down s)))
   \<and> freeSlots os up =
       (if max (quota os - int (length up)) 0 = 1 then 2 else max (quota os - int (length up)) 0)
   \<and> excess os up = (if int (length up) > quota os * 2 then int (length up) - quota os else 0)
   \<and> toDisconnect os up = take (nat (excess os up)) (sortByStateChange up)
   \<and> length (toDisconnect os up) = min (length up) (nat (excess os up))"
proof (intro conjI)
  show "updateTheseConnections e i test os s =
     thenE (forEachE (\<lambda>p. CONN_disconnect e (fst p) Undefined)
              (toDisconnect os (filter test (peersInConnection s))) s)
       (\<lambda>s1. forEachE (\<lambda>p. CONN_connect e (fst p) (Object (snd p)) Undefined)
          (fst (toConnect e i os (filter test (peersInConnection s))
                  (filter test (peersConnectable_db s)) s1))
          (snd (toConnect e i os (filter test (peersInConnection s))
                  (filter test (peersConnectable_db s)) s1)))"
    by (simp add: updateTheseConnections_def Let_def case_prod_beta)
  show "fst (toConnect e i os up down s) =
       take (nat (freeSlots os up)) (ordered e i (fst (suitable e os down s)))"
    by (simp add: toConnect_def take'_def case_prod_beta freeSlots_def neverJustOne_def)
  show "freeSlots os up =
       (if max (quota os - int (length up)) 0 = 1 then 2 else max (quota os - int (length up)) 0)"
    by (simp add: freeSlots_def neverJustOne_def)
  show "excess os up = (if int (length up) > quota os * 2 then int (length up) - quota os else 0)"
    by (simp add: excess_def)
  show "toDisconnect os up = take (nat (excess os up)) (sortByStateChange up)"
    by (simp add: toDisconnect_def take'_def excess_def)
  show "length (toDisconnect os up) = min (length up) (nat (excess os up))"
    by (simp add: toDisconnect_def take'_def excess_def length_sortByStateChange)
qed

theorem free_slots_never_just_one_witness:
  "freeSlots (sampleOpts 3) [samplePeer ''a'' 10, samplePeer ''b'' 20] = 2
   \<and> freeSlots (sampleOpts 3) [samplePeer ''a'' 10] = 2
   \<and> freeSlots (sampleOpts 1) [samplePeer ''a'' 10, samplePeer ''b'' 20] = 0
   \<and> excess (sampleOpts 0) [samplePeer ''a'' 10] = 1
   \<and> length (toDisconnect (sampleOpts 0) [samplePeer ''a'' 10]) = 1"
  using free_slots_never_just_one
      [where os = "sampleOpts 3" and up = "[samplePeer ''a'' 10, samplePeer ''b'' 20]"]
    free_slots_never_just_one [where os = "sampleOpts 3" and up = "[samplePeer ''a'' 10]"]
    free_slots_never_just_one
      [where os = "sampleOpts 1" and up = "[samplePeer ''a'' 10, samplePeer ''b'' 20]"]
    free_slots_never_just_one [where os = "sampleOpts 0" and up = "[samplePeer ''a'' 10]"]
  by (simp add: sampleOpts_def length_sortByStateChange)

lemma CONN_disconnect_Inr:
  "CONN_disconnect e a cb s = Inr s' \<Longrightarrow> cb = Undefined \<Longrightarrow> s' = hub_disconnect a s"
  by (auto simp: CONN_disconnect_def split: if_splits)

lemma forEachE_disconnect:
  "forEachE (\<lambda>p. CONN_disconnect e (fst p) Undefined) ps s = Inr s' \<Longrightarrow>
   s' = s\<lparr>hub := filter (\<lambda>q. fst q \<notin> fst ` set ps) (hub s)\<rparr>"
proof (induction ps arbitrary: s)
  case Nil
  then show ?case by simp
next
  case (Cons p ps)
  from Cons.prems obtain s1 where s1: "CONN_disconnect e (fst p) Undefined s = Inr s1"
    and rest: "forEachE (\<lambda>p. CONN_disconnect e (fst p) Undefined) ps s1 = Inr s'"
    by (auto split: sum.splits)
  have "s1 = hub_disconnect (fst p) s"
    using s1 by (rule CONN_disconnect_Inr) simp
  moreover have "s' = s1\<lparr>hub := filter (\<lambda>q. fst q \<notin> fst ` set ps) (hub s1)\<rparr>"
    using rest by (rule Cons.IH)
  ultimately show ?case
    by (simp add: hub_disconnect_def conj_commute)
qed

section \<open>The quota engine: selection of dial candidates\<close>

lemma filterS_Cons_fst:
  "fst (filterS f (x # xs) s) =
     (if fst (f x s) then x # fst (filterS f xs (snd (f x s)))
      else fst (filterS f xs (snd (f x s))))"
  by (simp split: prod.splits)

lemma filterS_Cons_snd: "snd (filterS f (x # xs) s) = snd (filterS f xs (snd (f x s)))"
  by (simp split: prod.splits)

lemma canBeConnected_online: "fst (canBeConnected e p s) = online e s p"
  by (auto simp: canBeConnected_def isOffline_def hasNetworkDebounced_def online_def
      networkUp_def Let_def split: prod.splits)

text \<open>
  The network check changes the cache only, and a refreshed cache gives the answer that
  was given when it was refreshed: within a tick every peer sees the same network.
\<close>

lemma canBeConnected_cache:
  "\<exists>c v. snd (canBeConnected e p s) = s\<lparr>lastCheck := c, lastValue := v\<rparr>
     \<and> networkUp e (s\<lparr>lastCheck := c, lastValue := v\<rparr>) = networkUp e s"
proof (cases "ip_isLoopback e (host (snd p)) \<or> host (snd p) = Some ''localhost''
    \<or> \<not> lastCheck s + 1000 < now e")
  case True
  then have "snd (canBeConnected e p s) = s"
    by (auto simp: canBeConnected_def isOffline_def hasNetworkDebounced_def Let_def)
  then show ?thesis
    by (intro exI [of _ "lastCheck s"] exI [of _ "lastValue s"]) simp
next
  case False
  then have "snd (canBeConnected e p s)
      = s\<lparr>lastCheck := now e, lastValue := Some (hasNetwork e)\<rparr>"
    by (auto simp: canBeConnected_def isOffline_def hasNetworkDebounced_def Let_def)
  moreover have "networkUp e (s\<lparr>lastCheck := now e, lastValue := Some (hasNetwork e)\<rparr>)
      = networkUp e s"
    using False by (auto simp: networkUp_def)
  ultimately show ?thesis by blast
qed

lemma online_cache: "networkUp e s' = networkUp e s \<Longrightarrow> online e s' = online e s"
  by (auto simp: online_def fun_eq_iff)

lemma filterS_canBeConnected:
  "fst (filterS (canBeConnected e) ps s) = filter (online e s) ps
   \<and> (\<exists>c v. snd (filterS (canBeConnected e) ps s) = s\<lparr>lastCheck := c, lastValue := v\<rparr>)"
proof (induction ps arbitrary: s)
  case Nil
  show ?case
    by (intro conjI exI [of _ "lastCheck s"] exI [of _ "lastValue s"]) simp_all
next
  case (Cons p ps)
  obtain c v where cv: "snd (canBeConnected e p s) = s\<lparr>lastCheck := c, lastValue := v\<rparr>"
    and up: "networkUp e (s\<lparr>lastCheck := c, lastValue := v\<rparr>) = networkUp e s"
    using canBeConnected_cache by blast
  let ?s1 = "s\<lparr>lastCheck := c, lastValue := v\<rparr>"
  have step: "canBeConnected e p s = (online e s p, ?s1)"
    using cv canBeConnected_online [of e p s] by (cases "canBeConnected e p s") simp
  obtain c' v' where rest: "fst (filterS (canBeConnected e) ps ?s1) = filter (online e ?s1) ps"
    and cv': "snd (filterS (canBeConnected e) ps ?s1) = ?s1\<lparr>lastCheck := c', lastValue := v'\<rparr>"
    using Cons.IH [of ?s1] by blast
  have eq: "online e ?s1 = online e s"
    using up by (rule online_cache)
  have "fst (filterS (canBeConnected e) (p # ps) s) = filter (online e s) (p # ps)"
    using step rest eq by (simp only: filterS_Cons_fst fst_conv snd_conv filter.simps)
  moreover have "snd (filterS (canBeConnected e) (p # ps) s)
      = s\<lparr>lastCheck := c', lastValue := v'\<rparr>"
    using step cv' by (simp add: filterS_Cons_snd del: filterS.simps)
  ultimately show ?case by blast
qed


lemma suitable_cache:
  "\<exists>c v. snd (suitable e os down s) = s\<lparr>lastCheck := c, lastValue := v\<rparr>"
proof -
  obtain c v where
    "snd (filterS (canBeConnected e) (filter (\<lambda>p. \<not> weBlockThem s p) down) s)
      = s\<lparr>lastCheck := c, lastValue := v\<rparr>"
    using filterS_canBeConnected [of e "filter (\<lambda>p. \<not> weBlockThem s p) down" s] by blast
  then have "snd (suitable e os down s) = s\<lparr>lastCheck := c, lastValue := v\<rparr>"
    by (simp add: suitable_def case_prod_beta)
  then show ?thesis by blast
qed

lemma toConnect_cache:
  "\<exists>c v. snd (toConnect e i os up down s) = s\<lparr>lastCheck := c, lastValue := v\<rparr>"
  using suitable_cache [of e os down s] by (simp add: toConnect_def case_prod_beta)









section \<open>conn.ts: stage and ping\<close>

text \<open>
  C7. \<open>stage\<close> refuses an address for which the Hub has a state: it returns false and
  changes nothing. When the Hub has no state for the address, the call is the staging
  pool's \<open>stage\<close> (with the default record \<open>{type: 'internet'}\<close> when no data is given) and
  returns its boolean. The Hub is never changed.
\<close>

theorem stage_refuses_live_address:
  "(hub_getState s a \<noteq> None \<longrightarrow> stage e a d s = (False, s)) \<and>
   (hub_getState s a = None \<longrightarrow>
      stage e a d s =
        staging_stage e a (case d of None \<Rightarrow> emptyData\<lparr>type := Some ''internet''\<rparr> | Some x \<Rightarrow> x) s) \<and>
   hub (snd (stage e a d s)) = hub s"
  by (simp add: stage_def staging_stage_def Let_def)

theorem stage_refuses_live_address_witness:
  "hub_getState (sampleState\<lparr>hub := [(''net:a~shs:A'', Connected, emptyData)]\<rparr>) ''net:a~shs:A'' \<noteq> None
   \<and> stage (sampleEnv 5000) ''net:a~shs:A'' None
       (sampleState\<lparr>hub := [(''net:a~shs:A'', Connected, emptyData)]\<rparr>)
     = (False, sampleState\<lparr>hub := [(''net:a~shs:A'', Connected, emptyData)]\<rparr>)
   \<and> hub_getState sampleState ''net:a~shs:A'' = None
   \<and> stage (sampleEnv 5000) ''net:a~shs:A'' None sampleState
     = (True, sampleState\<lparr>staging :=
          [(''net:a~shs:A'', emptyData\<lparr>type := Some ''internet'', stagingUpdated := Some 5000\<rparr>)]\<rparr>)"
  using stage_refuses_live_address
      [of "sampleState\<lparr>hub := [(''net:a~shs:A'', Connected, emptyData)]\<rparr>" "''net:a~shs:A''"
        "sampleEnv 5000" None]
    stage_refuses_live_address [of sampleState "''net:a~shs:A''" "sampleEnv 5000" None]
  by (simp add: hub_getState_def sampleState_def staging_stage_def sampleEnv_def)

text \<open>
  C9 as stated fails: a configured \<open>timers.ping\<close> of 0 is falsy, so \<open>ping()\<close> takes the
  default of 5 minutes, where clamping 0 into [10 s, 30 min] gives 10 s.
\<close>

theorem ping_zero_is_default:
  "CONN_ping \<lparr>gossip = None, timers = Some \<lparr>ping = Some 0\<rparr>\<rparr> = 300000
   \<and> max PING_MIN (min 0 PING_MAX) = 10000"
  by (simp add: CONN_ping_def PING_MIN_def PING_MAX_def PING_DEFAULT_def)

text \<open>
  C9, amended. The timeout of \<open>ping()\<close> is the configured \<open>timers.ping\<close> clamped into
  [10 s, 30 min] when it is a number other than 0, and 5 min when \<open>timers\<close> or
  \<open>timers.ping\<close> is absent or \<open>timers.ping\<close> is 0.
\<close>

theorem ping_timeout_clamped:
  "CONN_ping c =
     (case timers c of None \<Rightarrow> 300000
      | Some t \<Rightarrow> (case ping t of None \<Rightarrow> 300000
          | Some p \<Rightarrow> if p = 0 then 300000 else max 10000 (min p 1800000)))"
  by (simp add: CONN_ping_def PING_MIN_def PING_MAX_def PING_DEFAULT_def split: option.splits)

theorem ping_timeout_clamped_witness:
  "CONN_ping \<lparr>gossip = None, timers = Some \<lparr>ping = Some 5\<rparr>\<rparr> = 10000
   \<and> CONN_ping \<lparr>gossip = None, timers = Some \<lparr>ping = Some 60000\<rparr>\<rparr> = 60000
   \<and> CONN_ping \<lparr>gossip = None, timers = Some \<lparr>ping = Some 9999999\<rparr>\<rparr> = 1800000
   \<and> CONN_ping \<lparr>gossip = None, timers = Some \<lparr>ping = None\<rparr>\<rparr> = 300000
   \<and> CONN_ping \<lparr>gossip = None, timers = None\<rparr> = 300000"
  using ping_timeout_clamped [of "\<lparr>gossip = None, timers = Some \<lparr>ping = Some 5\<rparr>\<rparr>"]
    ping_timeout_clamped [of "\<lparr>gossip = None, timers = Some \<lparr>ping = Some 60000\<rparr>\<rparr>"]
    ping_timeout_clamped [of "\<lparr>gossip = None, timers = Some \<lparr>ping = Some 9999999\<rparr>\<rparr>"]
    ping_timeout_clamped [of "\<lparr>gossip = None, timers = Some \<lparr>ping = None\<rparr>\<rparr>"]
    ping_timeout_clamped [of "\<lparr>gossip = None, timers = None\<rparr>"]
  by simp

section \<open>Staging maintenance\<close>

lemma forEach_unstage:
  "forEach (\<lambda>p st. snd (unstage (fst p) st)) ps s
     = s\<lparr>staging := filter (\<lambda>q. fst q \<notin> fst ` set ps) (staging s)\<rparr>"
proof (induction ps arbitrary: s)
  case Nil
  show ?case by simp
next
  case (Cons p ps)
  let ?s1 = "snd (unstage (fst p) s)"
  have "forEach (\<lambda>p st. snd (unstage (fst p) st)) (p # ps) s
      = forEach (\<lambda>p st. snd (unstage (fst p) st)) ps ?s1"
    by simp
  also have "\<dots> = ?s1\<lparr>staging := filter (\<lambda>q. fst q \<notin> fst ` set ps) (staging ?s1)\<rparr>"
    by (rule Cons.IH)
  also have "\<dots> = s\<lparr>staging := filter (\<lambda>q. fst q \<notin> fst ` set (p # ps)) (staging s)\<rparr>"
    by (simp add: unstage_def staging_unstage_def conj_commute)
  finally show ?case .
qed

lemma filter_out_by_key:
  assumes "distinct (map fst xs)"
  shows "filter (\<lambda>q. fst q \<notin> fst ` set (filter P xs)) xs = filter (\<lambda>q. \<not> P q) xs"
proof (rule filter_cong [OF refl])
  fix q assume q: "q \<in> set xs"
  have inj: "inj_on fst (set xs)"
    using assms by (simp add: distinct_map)
  show "(fst q \<notin> fst ` set (filter P xs)) = (\<not> P q)"
  proof
    assume "fst q \<notin> fst ` set (filter P xs)"
    then show "\<not> P q" using q by force
  next
    assume np: "\<not> P q"
    show "fst q \<notin> fst ` set (filter P xs)"
    proof
      assume "fst q \<in> fst ` set (filter P xs)"
      then obtain q' where "q' \<in> set xs" "P q'" "fst q' = fst q" by auto
      then have "q' = q" using inj q by (auto dest: inj_onD)
      then show False using \<open>P q'\<close> np by simp
    qed
  qed
qed

lemma map_fst_refresh:
  "map fst (map (\<lambda>q. if fst q = a then (a, f q) else q) xs) = map fst xs"
  by (induction xs) auto

lemma set_refresh_other:
  "b \<noteq> a \<Longrightarrow>
   ((b, d) \<in> set (map (\<lambda>q. if fst q = a then (a, f q) else q) xs)) = ((b, d) \<in> set xs)"
  by (induction xs) auto

text \<open>
  One call of \<open>stage\<close> from \<open>updateStagingNow\<close> changes the staging pool only; an address
  it adds has no Hub state; it keeps the addresses apart; and it leaves the records of all
  other addresses as they are.
\<close>

lemma stage_snd:
  "snd (stage e a (Some d) s) =
     (if hub_getState s a \<noteq> None then s
      else if map_of (staging s) a \<noteq> None
      then s\<lparr>staging := map (\<lambda>q. if fst q = a
                  then (a, (mergeData (snd q) d)\<lparr>stagingUpdated := Some (now e)\<rparr>) else q)
                (staging s)\<rparr>
      else s\<lparr>staging := staging s @ [(a, d\<lparr>stagingUpdated := Some (now e)\<rparr>)]\<rparr>)"
  by (simp add: stage_def staging_stage_def)

lemma refresh_addrs:
  "fst ` set (map (\<lambda>q. if fst q = a then (a, f q) else q) xs) = fst ` set xs"
proof -
  have "set (map fst (map (\<lambda>q. if fst q = a then (a, f q) else q) xs)) = set (map fst xs)"
    by (simp only: map_fst_refresh)
  then show ?thesis
    by (simp only: set_map)
qed

lemma staging_stage_snd:
  "staging (snd (stage e a (Some d) s)) =
     (if hub_getState s a \<noteq> None then staging s
      else if map_of (staging s) a \<noteq> None
      then map (\<lambda>q. if fst q = a
                  then (a, (mergeData (snd q) d)\<lparr>stagingUpdated := Some (now e)\<rparr>) else q)
                (staging s)
      else staging s @ [(a, d\<lparr>stagingUpdated := Some (now e)\<rparr>)])"
  by (simp add: stage_snd)

lemma stage_one_new:
  assumes "q \<in> set (staging (snd (stage e a (Some d) s)))"
  shows "fst q \<in> fst ` set (staging s) \<or> hub_getState s (fst q) = None"
proof (cases "hub_getState s a \<noteq> None")
  case True
  then have "staging (snd (stage e a (Some d) s)) = staging s"
    by (simp add: staging_stage_snd)
  then show ?thesis
    using assms by simp
next
  case nohub: False
  show ?thesis
  proof (cases "map_of (staging s) a \<noteq> None")
    case True
    then have "staging (snd (stage e a (Some d) s)) = map (\<lambda>q. if fst q = a
                  then (a, (mergeData (snd q) d)\<lparr>stagingUpdated := Some (now e)\<rparr>) else q)
                (staging s)"
      using nohub by (simp add: staging_stage_snd)
    then have "fst ` set (staging (snd (stage e a (Some d) s))) = fst ` set (staging s)"
      by (simp only: refresh_addrs)
    then show ?thesis
      using assms by blast
  next
    case False
    then have "staging (snd (stage e a (Some d) s)) = staging s @ [(a, d\<lparr>stagingUpdated := Some (now e)\<rparr>)]"
      using nohub by (simp add: staging_stage_snd)
    then have "q \<in> set (staging s) \<or> fst q = a"
      using assms by auto
    then show ?thesis
      using nohub by auto
  qed
qed

lemma stage_one_frame:
  "snd (stage e a (Some d) s) = s\<lparr>staging := staging (snd (stage e a (Some d) s))\<rparr>"
  by (simp add: stage_snd)

lemma stage_one_distinct:
  assumes "distinct (map fst (staging s))"
  shows "distinct (map fst (staging (snd (stage e a (Some d) s))))"
proof (cases "hub_getState s a \<noteq> None")
  case True
  then show ?thesis using assms by (simp add: staging_stage_snd)
next
  case nohub: False
  show ?thesis
  proof (cases "map_of (staging s) a \<noteq> None")
    case True
    then have "staging (snd (stage e a (Some d) s)) = map (\<lambda>q. if fst q = a
                  then (a, (mergeData (snd q) d)\<lparr>stagingUpdated := Some (now e)\<rparr>) else q) (staging s)"
      using nohub by (simp add: staging_stage_snd)
    then show ?thesis
      using assms by (simp only: map_fst_refresh)
  next
    case False
    then have "staging (snd (stage e a (Some d) s)) = staging s @ [(a, d\<lparr>stagingUpdated := Some (now e)\<rparr>)]"
      and "a \<notin> fst ` set (staging s)"
      using nohub by (simp_all add: staging_stage_snd map_of_eq_None_iff)
    then show ?thesis
      using assms by simp
  qed
qed

lemma stage_one_other:
  assumes "b \<noteq> a"
  shows "((b, d') \<in> set (staging (snd (stage e a (Some d) s)))) = ((b, d') \<in> set (staging s))"
proof (cases "hub_getState s a \<noteq> None")
  case True
  then show ?thesis by (simp add: staging_stage_snd)
next
  case nohub: False
  show ?thesis
  proof (cases "map_of (staging s) a \<noteq> None")
    case True
    then have "staging (snd (stage e a (Some d) s)) = map (\<lambda>q. if fst q = a
                  then (a, (mergeData (snd q) d)\<lparr>stagingUpdated := Some (now e)\<rparr>) else q) (staging s)"
      using nohub by (simp add: staging_stage_snd)
    then show ?thesis
      by (simp only: set_refresh_other [OF assms])
  next
    case False
    then have "staging (snd (stage e a (Some d) s)) = staging s @ [(a, d\<lparr>stagingUpdated := Some (now e)\<rparr>)]"
      using nohub by (simp add: staging_stage_snd)
    then show ?thesis
      using assms by simp
  qed
qed

lemma hub_getState_staging_update: "hub_getState (s\<lparr>staging := x\<rparr>) = hub_getState s"
  by (simp add: hub_getState_def fun_eq_iff)

lemma staging_frame_trans:
  "m = s\<lparr>staging := x\<rparr> \<Longrightarrow> f = m\<lparr>staging := y\<rparr> \<Longrightarrow> f = s\<lparr>staging := y\<rparr>"
  by simp

lemma hub_getState_stage: "hub_getState (snd (stage e a (Some d) s)) = hub_getState s"
  by (subst stage_one_frame) (rule hub_getState_staging_update)

lemma forEach_stage_frame:
  "forEach (\<lambda>p st. snd (stage e (fst p) (Some (snd p)) st)) ps s = s\<lparr>staging := staging (forEach (\<lambda>p st. snd (stage e (fst p) (Some (snd p)) st)) ps s)\<rparr>"
proof (induction ps arbitrary: s)
  case Nil
  show ?case by simp
next
  case (Cons p ps)
  let ?m = "snd (stage e (fst p) (Some (snd p)) s)"
  have run: "forEach (\<lambda>p st. snd (stage e (fst p) (Some (snd p)) st)) (p # ps) s = forEach (\<lambda>p st. snd (stage e (fst p) (Some (snd p)) st)) ps ?m"
    by simp
  show ?case
    unfolding run by (rule staging_frame_trans [OF stage_one_frame Cons.IH])
qed

lemma forEach_stage_new:
  "q \<in> set (staging (forEach (\<lambda>p st. snd (stage e (fst p) (Some (snd p)) st)) ps s)) \<Longrightarrow>
   fst q \<in> fst ` set (staging s) \<or> hub_getState s (fst q) = None"
proof (induction ps arbitrary: s)
  case Nil
  then show ?case by simp
next
  case (Cons p ps)
  let ?m = "snd (stage e (fst p) (Some (snd p)) s)"
  have run: "forEach (\<lambda>p st. snd (stage e (fst p) (Some (snd p)) st)) (p # ps) s = forEach (\<lambda>p st. snd (stage e (fst p) (Some (snd p)) st)) ps ?m"
    by simp
  from Cons.prems have "q \<in> set (staging (forEach (\<lambda>p st. snd (stage e (fst p) (Some (snd p)) st)) ps ?m))"
    unfolding run .
  then have "fst q \<in> fst ` set (staging ?m) \<or> hub_getState ?m (fst q) = None"
    by (rule Cons.IH)
  then show ?case
  proof
    assume "fst q \<in> fst ` set (staging ?m)"
    then obtain q' where 1: "q' \<in> set (staging ?m)" and 2: "fst q = fst q'"
      by (rule imageE)
    from stage_one_new [OF 1] show ?thesis
      unfolding 2 .
  next
    assume "hub_getState ?m (fst q) = None"
    then show ?thesis
      unfolding hub_getState_stage ..
  qed
qed

lemma forEach_stage_distinct:
  "distinct (map fst (staging s)) \<Longrightarrow> distinct (map fst (staging (forEach (\<lambda>p st. snd (stage e (fst p) (Some (snd p)) st)) ps s)))"
proof (induction ps arbitrary: s)
  case Nil
  then show ?case by simp
next
  case (Cons p ps)
  let ?m = "snd (stage e (fst p) (Some (snd p)) s)"
  have run: "forEach (\<lambda>p st. snd (stage e (fst p) (Some (snd p)) st)) (p # ps) s = forEach (\<lambda>p st. snd (stage e (fst p) (Some (snd p)) st)) ps ?m"
    by simp
  show ?case
    unfolding run by (rule Cons.IH [OF stage_one_distinct [OF Cons.prems]])
qed

lemma forEach_stage_other:
  "b \<notin> fst ` set ps \<Longrightarrow>
   ((b, d') \<in> set (staging (forEach (\<lambda>p st. snd (stage e (fst p) (Some (snd p)) st)) ps s))) = ((b, d') \<in> set (staging s))"
proof (induction ps arbitrary: s)
  case Nil
  then show ?case by simp
next
  case (Cons p ps)
  let ?m = "snd (stage e (fst p) (Some (snd p)) s)"
  have run: "forEach (\<lambda>p st. snd (stage e (fst p) (Some (snd p)) st)) (p # ps) s = forEach (\<lambda>p st. snd (stage e (fst p) (Some (snd p)) st)) ps ?m"
    by simp
  from Cons.prems have ne: "b \<noteq> fst p" and rest: "b \<notin> fst ` set ps"
    by auto
  show ?case
    unfolding run Cons.IH [OF rest] by (rule stage_one_other [OF ne])
qed

lemma connectable_staging_disjoint:
  "poolsDisjoint s \<Longrightarrow> peersConnectable_staging s = staging s"
  by (simp add: poolsDisjoint_def peersConnectable_staging_def list_all_iff)

lemma purge_staged:
  assumes "poolsDisjoint s"
    and s'_def: "s' = forEach (\<lambda>p st. snd (unstage (fst p) st)) (filter P (peersConnectable_staging s)) s"
  shows "s' = s\<lparr>staging := staging s'\<rparr>"
    and "set (staging s') \<subseteq> {q \<in> set (staging s). \<not> P q}"
    and "distinct (map fst (staging s)) \<Longrightarrow> staging s' = filter (\<lambda>q. \<not> P q) (staging s)"
    and "poolsDisjoint s'"
    and "distinct (map fst (staging s)) \<Longrightarrow> distinct (map fst (staging s'))"
proof -
  have c: "peersConnectable_staging s = staging s"
    using assms(1) by (rule connectable_staging_disjoint)
  have eq: "s' = s\<lparr>staging := filter (\<lambda>q. fst q \<notin> fst ` set (filter P (staging s))) (staging s)\<rparr>"
    unfolding s'_def c by (rule forEach_unstage)
  show "s' = s\<lparr>staging := staging s'\<rparr>"
    by (subst (1 2) eq) simp
  show "set (staging s') \<subseteq> {q \<in> set (staging s). \<not> P q}"
    by (subst eq) force
  show d: "staging s' = filter (\<lambda>q. \<not> P q) (staging s)" if "distinct (map fst (staging s))"
    using filter_out_by_key [OF that, of P] by (subst eq) simp
  show "poolsDisjoint s'"
    using assms(1) by (subst eq) (simp add: poolsDisjoint_def list_all_iff inConnection_def hub_getState_def)
  show "distinct (map fst (staging s'))" if "distinct (map fst (staging s))"
    using that by (simp add: d distinct_map_filter)
qed

lemma weBlockThem_staging_update: "weBlockThem (s\<lparr>staging := x\<rparr>) = weBlockThem s"
  by (simp add: weBlockThem_def fun_eq_iff split: option.splits)

lemma toStage_no_hub:
  "p \<in> set (toStage s) \<Longrightarrow> \<not> inConnection s (fst p)"
  by (simp add: toStage_def peersConnectable_db_def)

lemma stageAll_disjoint:
  assumes dis: "poolsDisjoint s"
  shows "poolsDisjoint (forEach (\<lambda>p st. snd (stage e (fst p) (Some (snd p)) st)) ps s)"
proof -
  let ?s1 = "forEach (\<lambda>p st. snd (stage e (fst p) (Some (snd p)) st)) ps s"
  have fr: "?s1 = s\<lparr>staging := staging ?s1\<rparr>"
    by (rule forEach_stage_frame)
  have "\<not> inConnection s (fst q)" if "q \<in> set (staging ?s1)" for q
    using forEach_stage_new [OF that]
  proof
    assume "fst q \<in> fst ` set (staging s)"
    then obtain q' where "q' \<in> set (staging s)" and "fst q = fst q'"
      by (rule imageE)
    then show ?thesis
      using dis by (simp add: poolsDisjoint_def list_all_iff)
  next
    assume "hub_getState s (fst q) = None"
    then show ?thesis
      by (simp add: inConnection_def)
  qed
  then have "list_all (\<lambda>p. \<not> inConnection s (fst p)) (staging ?s1)"
    by (simp add: list_all_iff)
  moreover have "inConnection ?s1 = inConnection s"
    by (subst fr) (simp add: inConnection_def hub_getState_def fun_eq_iff)
  ultimately show ?thesis
    by (simp only: poolsDisjoint_def)
qed

lemma updateStagingNow_result:
  assumes dis: "poolsDisjoint s"
  shows "updateStagingNow e s = s\<lparr>staging := staging (updateStagingNow e s)\<rparr>"
    and "poolsDisjoint (updateStagingNow e s)"
    and "\<forall>p \<in> set (staging (updateStagingNow e s)). \<not> weBlockThem s p"
    and "distinct (map fst (staging s)) \<Longrightarrow> b \<notin> fst ` set (toStage s) \<Longrightarrow>
         ((b, d) \<in> set (staging (updateStagingNow e s))) =
           ((b, d) \<in> set (staging s) \<and> \<not> weBlockThem s (b, d)
            \<and> \<not> (type d = Some ''lan'' \<and> olderThan e 10000 (stagingUpdated d))
            \<and> \<not> (type d = Some ''bt'' \<and> olderThan e 30000 (stagingUpdated d)))"
    and "distinct (map fst (staging s)) \<Longrightarrow> distinct (map fst (staging (updateStagingNow e s)))"
proof -
  let ?un = "\<lambda>p st. snd (unstage (fst p) st)"
  let ?lan = "\<lambda>q. type (snd q) = Some ''lan'' \<and> olderThan e 10000 (stagingUpdated (snd q))"
  let ?bt = "\<lambda>q. type (snd q) = Some ''bt'' \<and> olderThan e 30000 (stagingUpdated (snd q))"
  define s1 where "s1 = forEach (\<lambda>p st. snd (stage e (fst p) (Some (snd p)) st)) (toStage s) s"
  define s2 where "s2 = forEach ?un (filter (weBlockThem s1) (peersConnectable_staging s1)) s1"
  define s3 where "s3 = forEach ?un (filter ?lan (peersConnectable_staging s2)) s2"
  define s4 where "s4 = forEach ?un (filter ?bt (peersConnectable_staging s3)) s3"
  have res: "updateStagingNow e s = s4"
    by (simp only: updateStagingNow_def Let_def filter_filter s4_def s3_def s2_def s1_def)
  have only1: "s1 = s\<lparr>staging := staging s1\<rparr>"
    unfolding s1_def by (rule forEach_stage_frame)
  have d1: "poolsDisjoint s1"
    unfolding s1_def using dis by (rule stageAll_disjoint)
  have b1: "weBlockThem s1 = weBlockThem s"
    by (subst only1) (rule weBlockThem_staging_update)
  note p2 = purge_staged [OF d1 s2_def]
  note p3 = purge_staged [OF p2(4) s3_def]
  note p4 = purge_staged [OF p3(4) s4_def]
  have "s2 = s\<lparr>staging := staging s2\<rparr>"
    by (rule staging_frame_trans [OF only1 p2(1)])
  then have "s3 = s\<lparr>staging := staging s3\<rparr>"
    by (rule staging_frame_trans [OF _ p3(1)])
  then have "s4 = s\<lparr>staging := staging s4\<rparr>"
    by (rule staging_frame_trans [OF _ p4(1)])
  then show "updateStagingNow e s = s\<lparr>staging := staging (updateStagingNow e s)\<rparr>"
    unfolding res .
  show "poolsDisjoint (updateStagingNow e s)"
    unfolding res by (rule p4(4))
  have "set (staging s4) \<subseteq> set (staging s3)" "set (staging s3) \<subseteq> set (staging s2)"
    using p4(2) p3(2) by blast+
  then have "set (staging s4) \<subseteq> {q \<in> set (staging s1). \<not> weBlockThem s q}"
    using p2(2) unfolding b1 by blast
  then show "\<forall>p \<in> set (staging (updateStagingNow e s)). \<not> weBlockThem s p"
    unfolding res by blast
  show "((b, d) \<in> set (staging (updateStagingNow e s))) =
           ((b, d) \<in> set (staging s) \<and> \<not> weBlockThem s (b, d)
            \<and> \<not> (type d = Some ''lan'' \<and> olderThan e 10000 (stagingUpdated d))
            \<and> \<not> (type d = Some ''bt'' \<and> olderThan e 30000 (stagingUpdated d)))"
    if dist: "distinct (map fst (staging s))" and nb: "b \<notin> fst ` set (toStage s)"
  proof -
    have ds1: "distinct (map fst (staging s1))"
      unfolding s1_def using dist by (rule forEach_stage_distinct)
    have e2: "staging s2 = filter (\<lambda>q. \<not> weBlockThem s q) (staging s1)"
      using p2(3) [OF ds1] unfolding b1 .
    have e3: "staging s3 = filter (\<lambda>q. \<not> ?lan q) (staging s2)"
      by (rule p3(3) [OF p2(5) [OF ds1]])
    have e4: "staging s4 = filter (\<lambda>q. \<not> ?bt q) (staging s3)"
      by (rule p4(3) [OF p3(5) [OF p2(5) [OF ds1]]])
    have "((b, d) \<in> set (staging s4)) =
        ((b, d) \<in> set (staging s1) \<and> \<not> weBlockThem s (b, d) \<and> \<not> ?lan (b, d) \<and> \<not> ?bt (b, d))"
      unfolding e4 e3 e2 by auto
    moreover have "((b, d) \<in> set (staging s1)) = ((b, d) \<in> set (staging s))"
      unfolding s1_def using nb by (rule forEach_stage_other)
    ultimately show ?thesis
      unfolding res by simp
  qed
  show "distinct (map fst (staging (updateStagingNow e s)))" if dist: "distinct (map fst (staging s))"
  proof -
    have ds1: "distinct (map fst (staging s1))"
      unfolding s1_def using dist by (rule forEach_stage_distinct)
    show ?thesis
      unfolding res by (rule p4(5) [OF p3(5) [OF p2(5) [OF ds1]]])
  qed
qed

text \<open>
  C6, amended. In a node whose staging pool holds each address once and none that is in
  connection, a run of \<open>updateStagingNow\<close> unstages every staged entry of type \<open>lan\<close>
  with \<open>stagingUpdated + 10 s < now\<close> and every staged entry of type \<open>bt\<close> with
  \<open>stagingUpdated + 30 s < now\<close>, and keeps every staged entry that is within those
  bounds and whose key is not blocked, provided the address is not one of the DB records
  with \<open>autoconnect = false\<close> that the same run stages again.
\<close>

theorem staged_aging:
  assumes "distinct (map fst (staging s))" and "poolsDisjoint s"
    and "(a, d) \<in> set (staging s)" and "stagingUpdated d = Some t"
    and "a \<notin> fst ` set (toStage s)"
  shows "(type d = Some ''lan'' \<and> t + 10000 < now e \<longrightarrow>
            a \<notin> fst ` set (staging (updateStagingNow e s)))
       \<and> (type d = Some ''bt'' \<and> t + 30000 < now e \<longrightarrow>
            a \<notin> fst ` set (staging (updateStagingNow e s)))
       \<and> (\<not> weBlockThem s (a, d) \<and> \<not> (type d = Some ''lan'' \<and> t + 10000 < now e)
            \<and> \<not> (type d = Some ''bt'' \<and> t + 30000 < now e) \<longrightarrow>
            (a, d) \<in> set (staging (updateStagingNow e s)))"
proof -
  let ?lan = "\<lambda>d. type d = Some ''lan'' \<and> olderThan e 10000 (stagingUpdated d)"
  let ?bt = "\<lambda>d. type d = Some ''bt'' \<and> olderThan e 30000 (stagingUpdated d)"
  have mem: "((a, d') \<in> set (staging (updateStagingNow e s))) =
      ((a, d') \<in> set (staging s) \<and> \<not> weBlockThem s (a, d') \<and> \<not> ?lan d' \<and> \<not> ?bt d')" for d'
    by (rule updateStagingNow_result(4) [OF assms(2) assms(1) assms(5)])
  have uniq: "d' = d" if "(a, d') \<in> set (staging s)" for d'
    using that assms(3) assms(1) by (meson eq_key_imp_eq_value)
  have old: "olderThan e n (stagingUpdated d) = (t + n < now e)" for n
    using assms(4) by (simp add: olderThan_def)
  have gone: "a \<notin> fst ` set (staging (updateStagingNow e s))" if "?lan d \<or> ?bt d"
  proof
    assume "a \<in> fst ` set (staging (updateStagingNow e s))"
    then obtain d' where d': "(a, d') \<in> set (staging (updateStagingNow e s))"
      by force
    then have "d' = d"
      using uniq unfolding mem by blast
    then show False
      using d' that unfolding mem by blast
  qed
  have kept: "(a, d) \<in> set (staging (updateStagingNow e s))"
    if "\<not> weBlockThem s (a, d)" "\<not> ?lan d" "\<not> ?bt d"
    unfolding mem using that assms(3) by blast
  show ?thesis
    using gone kept by (simp add: old)
qed

theorem staged_aging_witness:
  "distinct (map fst (staging sampleStaged)) \<and> poolsDisjoint sampleStaged
   \<and> sampleLan \<in> set (staging sampleStaged)
   \<and> fst sampleLan \<notin> fst ` set (toStage sampleStaged)
   \<and> sampleLan \<in> set (staging (updateStagingNow (sampleEnv 19900) sampleStaged))
   \<and> fst sampleLan \<notin> fst ` set (staging (updateStagingNow (sampleEnv 20100) sampleStaged))"
proof -
  have d: "distinct (map fst (staging sampleStaged))"
    by (simp add: sampleStaged_def sampleState_def)
  have p: "poolsDisjoint sampleStaged"
    by (simp add: poolsDisjoint_def sampleStaged_def sampleState_def inConnection_def
        hub_getState_def)
  have m: "(fst sampleLan, snd sampleLan) \<in> set (staging sampleStaged)"
    by (simp add: sampleStaged_def sampleState_def)
  have u: "stagingUpdated (snd sampleLan) = Some 10000"
    by (simp add: sampleLan_def)
  have n: "fst sampleLan \<notin> fst ` set (toStage sampleStaged)"
    by (simp add: toStage_def peersConnectable_db_def sampleStaged_def sampleState_def)
  have nb: "\<not> weBlockThem sampleStaged (fst sampleLan, snd sampleLan)"
    by (simp add: weBlockThem_def sampleStaged_def sampleState_def sampleLan_def)
  have ty: "type (snd sampleLan) = Some ''lan''"
    by (simp add: sampleLan_def)
  show ?thesis
    using d p m n nb ty staged_aging [OF d p m u n, of "sampleEnv 19900"]
      staged_aging [OF d p m u n, of "sampleEnv 20100"]
    by (simp add: sampleEnv_def)
qed

text \<open>
  C6 as stated fails: a LAN entry staged 2 s ago is younger than the bound, but its key
  is blocked, so the same run of \<open>updateStagingNow\<close> unstages it.
\<close>

theorem young_blocked_lan_is_unstaged:
  "staging (sampleStaged\<lparr>hops := [''@k.ed25519'' \<mapsto> - 1]\<rparr>) = [sampleLan]
   \<and> type (snd sampleLan) = Some ''lan''
   \<and> stagingUpdated (snd sampleLan) = Some 10000
   \<and> \<not> (10000 + 10000 < now (sampleEnv 12000))
   \<and> staging (updateStagingNow (sampleEnv 12000)
        (sampleStaged\<lparr>hops := [''@k.ed25519'' \<mapsto> - 1]\<rparr>)) = []"
  by (simp add: updateStagingNow_def Let_def sampleStaged_def sampleState_def sampleLan_def
      sampleEnv_def peersConnectable_db_def peersConnectable_staging_def inConnection_def
      hub_getState_def weBlockThem_def unstage_def staging_unstage_def olderThan_def
      toStage_def)

text \<open>
  The proviso of the amended claim is needed: a LAN entry staged 10.1 s ago whose address
  is a DB record with \<open>autoconnect = false\<close> is staged again by the same run, which
  refreshes its \<open>stagingUpdated\<close>, so the entry is kept.
\<close>

lemma restaged_old_lan_is_kept:
  "staging sampleAddressBook = [sampleLan]
   \<and> type (snd sampleLan) = Some ''lan''
   \<and> stagingUpdated (snd sampleLan) = Some 10000
   \<and> 10000 + 10000 < now (sampleEnv 20100)
   \<and> map (\<lambda>p. (fst p, type (snd p), stagingUpdated (snd p)))
        (staging (updateStagingNow (sampleEnv 20100) sampleAddressBook))
      = [(fst sampleLan, Some ''lan'', Some 20100)]"
  by (simp add: updateStagingNow_def Let_def sampleAddressBook_def sampleStaged_def
      sampleState_def sampleLan_def
      sampleEnv_def peersConnectable_db_def peersConnectable_staging_def inConnection_def
      hub_getState_def weBlockThem_def unstage_def staging_unstage_def olderThan_def
      toStage_def stage_def staging_stage_def mergeData_def emptyData_def)

section \<open>The tick\<close>

text \<open>
  C8. \<open>updateNow\<close> returns the state it was given when the message log exists and is not
  ready, when a message arrived less than 500 ms ago, or when the hops table is loading;
  otherwise it is \<open>updateStagingNow\<close> followed by \<open>updateHubNow\<close>. The time of the last
  message is set by the post hook, for messages of other authors only: after such a
  message at time \<open>now e\<close>, a tick less than 500 ms later changes nothing.
\<close>

theorem updateNow_suppressed:
  "(((hasSsbDb s \<and> \<not> ready e) \<or> (lastMessageAt s \<noteq> 0 \<and> now e - lastMessageAt s < 500)
      \<or> isLoadingHops s) \<longrightarrow> updateNow e s = Inr s) \<and>
   (\<not> ((hasSsbDb s \<and> \<not> ready e) \<or> (lastMessageAt s \<noteq> 0 \<and> now e - lastMessageAt s < 500)
      \<or> isLoadingHops s) \<longrightarrow> updateNow e s = updateHubNow e (updateStagingNow e s)) \<and>
   (author m \<noteq> ssb_id s \<and> now e0 \<noteq> 0 \<and> now e - now e0 < 500 \<longrightarrow>
      updateNow e (onPost e0 m s) = Inr (onPost e0 m s))"
  by (auto simp: updateNow_def isCurrentlyDownloading_def onPost_def loadHops_def Let_def)

theorem updateNow_suppressed_witness:
  "author \<lparr>author = ''@you.ed25519'', content_type = None\<rparr> \<noteq> ssb_id sampleState
   \<and> now (sampleEnv 7000) \<noteq> 0 \<and> now (sampleEnv 7400) - now (sampleEnv 7000) < 500
   \<and> updateNow (sampleEnv 7400)
       (onPost (sampleEnv 7000) \<lparr>author = ''@you.ed25519'', content_type = None\<rparr> sampleState)
     = Inr (sampleState\<lparr>lastMessageAt := 7000\<rparr>)
   \<and> updateNow (sampleEnv 7400) (sampleState\<lparr>isLoadingHops := True\<rparr>)
     = Inr (sampleState\<lparr>isLoadingHops := True\<rparr>)
   \<and> updateNow (sampleEnv 7400) sampleState
     = updateHubNow (sampleEnv 7400) (updateStagingNow (sampleEnv 7400) sampleState)"
  using updateNow_suppressed
      [of sampleState "sampleEnv 7400" "\<lparr>author = ''@you.ed25519'', content_type = None\<rparr>"
        "sampleEnv 7000"]
    updateNow_suppressed [of "sampleState\<lparr>isLoadingHops := True\<rparr>" "sampleEnv 7400"]
  by (simp add: sampleState_def sampleEnv_def onPost_def)

section \<open>Blocked keys\<close>

lemma thenE_Inr: "thenE m f = Inr s' \<Longrightarrow> \<exists>s1. m = Inr s1 \<and> f s1 = Inr s'"
  by (cases m) (simp_all add: thenE_def)

lemma forEachE_rel:
  assumes step: "\<And>x s s'. f x s = Inr s' \<Longrightarrow> R s s'"
    and refl: "\<And>s. R s s"
    and trans: "\<And>a b c. R a b \<Longrightarrow> R b c \<Longrightarrow> R a c"
  shows "forEachE f xs s = Inr s' \<Longrightarrow> R s s'"
proof (induction xs arbitrary: s)
  case Nil
  then show ?case using refl by simp
next
  case (Cons x xs)
  from Cons.prems obtain s1 where "f x s = Inr s1" and "forEachE f xs s1 = Inr s'"
    by (auto split: sum.splits)
  then show ?case
    using step Cons.IH trans by blast
qed

text \<open>
  A relation between states that is reflexive and transitive and that every call of
  \<open>CONN.connect\<close> and \<open>CONN.disconnect\<close> and every refresh of the cached network check
  respects, holds between the states before and after \<open>updateHubNow\<close>.
\<close>

lemma connect_loop_rel:
  assumes refl: "\<forall>s. R s s"
    and trans: "\<forall>a b c. R a b \<longrightarrow> R b c \<longrightarrow> R a c"
    and con: "\<forall>a x y s s'. CONN_connect e a x y s = Inr s' \<longrightarrow> R s s'"
    and run: "forEachE (\<lambda>p. CONN_connect e (fst p) (Object (snd p)) Undefined) ps s = Inr s'"
  shows "R s s'"
  using run
proof (rule forEachE_rel [where f = "\<lambda>p. CONN_connect e (fst p) (Object (snd p)) Undefined", rotated -1])
  show "R a b" if "CONN_connect e (fst x) (Object (snd x)) Undefined a = Inr b"
    for x :: peer and a b
    using con that by blast
  show "R a a" for a
    using refl by blast
  show "R a c" if "R a b" "R b c" for a b c
    using trans that by blast
qed

lemma disconnect_loop_rel:
  assumes refl: "\<forall>s. R s s"
    and trans: "\<forall>a b c. R a b \<longrightarrow> R b c \<longrightarrow> R a c"
    and dis: "\<forall>a cb s s'. CONN_disconnect e a cb s = Inr s' \<longrightarrow> R s s'"
    and run: "forEachE (\<lambda>p. CONN_disconnect e (fst p) Undefined) (ps :: peer list) s = Inr s'"
  shows "R s s'"
  using run
proof (rule forEachE_rel [where f = "\<lambda>p :: peer. CONN_disconnect e (fst p) Undefined", rotated -1])
  show "R a b" if "CONN_disconnect e (fst x) Undefined a = Inr b"
    for x :: peer and a b
    using dis that by blast
  show "R a a" for a
    using refl by blast
  show "R a c" if "R a b" "R b c" for a b c
    using trans that by blast
qed

lemma updateTheseConnections_rel:
  assumes refl: "\<forall>s. R s s"
    and trans: "\<forall>a b c. R a b \<longrightarrow> R b c \<longrightarrow> R a c"
    and con: "\<forall>a x y s s'. CONN_connect e a x y s = Inr s' \<longrightarrow> R s s'"
    and dis: "\<forall>a cb s s'. CONN_disconnect e a cb s = Inr s' \<longrightarrow> R s s'"
    and cache: "\<forall>s c v. R s (s\<lparr>lastCheck := c, lastValue := v\<rparr>)"
    and run: "updateTheseConnections e i test os s = Inr s'"
  shows "R s s'"
proof -
  let ?up = "filter test (peersInConnection s)"
  let ?down = "filter test (peersConnectable_db s)"
  from run obtain s1 where
    d: "forEachE (\<lambda>p. CONN_disconnect e (fst p) Undefined) (toDisconnect os ?up) s = Inr s1"
    and c: "forEachE (\<lambda>p. CONN_connect e (fst p) (Object (snd p)) Undefined)
        (fst (toConnect e i os ?up ?down s1)) (snd (toConnect e i os ?up ?down s1)) = Inr s'"
    by (auto simp: updateTheseConnections_def Let_def case_prod_beta dest!: thenE_Inr)
  have "R s s1"
    by (rule disconnect_loop_rel [OF refl trans dis d])
  moreover have "R s1 (snd (toConnect e i os ?up ?down s1))"
  proof -
    obtain c v where "snd (toConnect e i os ?up ?down s1) = s1\<lparr>lastCheck := c, lastValue := v\<rparr>"
      using toConnect_cache by blast
    then show ?thesis
      using cache by simp
  qed
  moreover have "R (snd (toConnect e i os ?up ?down s1)) s'"
    by (rule connect_loop_rel [OF refl trans con c])
  ultimately show ?thesis
    using trans by blast
qed

lemma guarded_pass_rel:
  assumes refl: "\<forall>s. R s s"
    and trans: "\<forall>a b c. R a b \<longrightarrow> R b c \<longrightarrow> R a c"
    and con: "\<forall>a x y s s'. CONN_connect e a x y s = Inr s' \<longrightarrow> R s s'"
    and dis: "\<forall>a cb s s'. CONN_disconnect e a cb s = Inr s' \<longrightarrow> R s s'"
    and cache: "\<forall>s c v. R s (s\<lparr>lastCheck := c, lastValue := v\<rparr>)"
    and run: "(if g then updateTheseConnections e i test os s else Inr s) = Inr s'"
  shows "R s s'"
proof (cases g)
  case True
  then have "updateTheseConnections e i test os s = Inr s'"
    using run by simp
  then show ?thesis
    by (rule updateTheseConnections_rel [OF refl trans con dis cache])
next
  case False
  then have "s' = s"
    using run by simp
  then show ?thesis
    using refl by simp
qed

lemma classPasses_rel:
  assumes refl: "\<forall>s. R s s"
    and trans: "\<forall>a b c. R a b \<longrightarrow> R b c \<longrightarrow> R a c"
    and con: "\<forall>a x y s s'. CONN_connect e a x y s = Inr s' \<longrightarrow> R s s'"
    and dis: "\<forall>a cb s s'. CONN_disconnect e a cb s = Inr s' \<longrightarrow> R s s'"
    and cache: "\<forall>s c v. R s (s\<lparr>lastCheck := c, lastValue := v\<rparr>)"
    and run: "classPasses e s = Inr s'"
  shows "R s s'"
proof -
  note pass = updateTheseConnections_rel [OF refl trans con dis cache]
  note guarded = guarded_pass_rel [OF refl trans con dis cache]
  from run obtain s1 s2 s3 s4 s5 s6 where
    "R s s1" "R s1 s2" "R s2 s3" "R s3 s4" "R s4 s5" "R s5 s6" "R s6 s'"
    unfolding classPasses_def
    by (blast dest!: thenE_Inr dest: guarded pass)
  then show ?thesis
    using trans by blast
qed

lemma updateHubNow_rel:
  assumes refl: "\<forall>s. R s s"
    and trans: "\<forall>a b c. R a b \<longrightarrow> R b c \<longrightarrow> R a c"
    and con: "\<forall>a x y s s'. CONN_connect e a x y s = Inr s' \<longrightarrow> R s s'"
    and dis: "\<forall>a cb s s'. CONN_disconnect e a cb s = Inr s' \<longrightarrow> R s s'"
    and cache: "\<forall>s c v. R s (s\<lparr>lastCheck := c, lastValue := v\<rparr>)"
    and run: "updateHubNow e s = Inr s'"
  shows "R s s'"
proof -
  from run obtain s1 s2 s3 s4 where c: "classPasses e s = Inr s1"
    and f: "connectStagedFollowed e s1 = Inr s2"
    and b: "purgeBlocked e s2 = Inr s3"
    and r: "purgeFrustrating e s3 = Inr s4"
    and l: "purgeLongLived e s4 = Inr s'"
    unfolding updateHubNow_def by (blast dest!: thenE_Inr)
  have "R s s1"
    by (rule classPasses_rel [OF refl trans con dis cache c])
  moreover have "R s1 s2"
    by (rule connect_loop_rel [OF refl trans con f [unfolded connectStagedFollowed_def]])
  moreover have "R s2 s3"
    by (rule disconnect_loop_rel [OF refl trans dis b [unfolded purgeBlocked_def]])
  moreover have "R s3 s4"
    by (rule disconnect_loop_rel [OF refl trans dis r [unfolded purgeFrustrating_def]])
  moreover have "R s4 s'"
    by (rule disconnect_loop_rel [OF refl trans dis l [unfolded purgeLongLived_def]])
  ultimately show ?thesis
    using trans by blast
qed

lemma updateHubNow_hubStep:
  assumes "updateHubNow e s = Inr s'"
  shows "hubStep s s'"
proof (rule updateHubNow_rel [where R = hubStep, OF _ _ _ _ _ assms])
  show "\<forall>s. hubStep s s"
    by (simp add: hubStep_def)
  show "\<forall>a b c. hubStep a b \<longrightarrow> hubStep b c \<longrightarrow> hubStep a c"
    by (auto simp: hubStep_def)
  show "\<forall>a x y s s'. CONN_connect e a x y s = Inr s' \<longrightarrow> hubStep s s'"
    by (auto simp: CONN_connect_def hub_connect_def hubStep_def Let_def split: if_splits)
  show "\<forall>a cb s s'. CONN_disconnect e a cb s = Inr s' \<longrightarrow> hubStep s s'"
    by (auto simp: CONN_disconnect_def hub_disconnect_def hubStep_def split: if_splits)
  show "\<forall>s c v. hubStep s (s\<lparr>lastCheck := c, lastValue := v\<rparr>)"
    by (simp add: hubStep_def)
qed

lemma hub_connect_keyed: "hubKeyed e s \<Longrightarrow> hubKeyed e (hub_connect e a d s)"
  by (simp add: hubKeyed_def hub_connect_def Let_def split: option.splits)

lemma updateHubNow_keyed:
  assumes "updateHubNow e s = Inr s'" and "hubKeyed e s"
  shows "hubKeyed e s'"
proof -
  have "hubKeyed e s \<longrightarrow> hubKeyed e s'"
  proof (rule updateHubNow_rel [where R = "\<lambda>s s'. hubKeyed e s \<longrightarrow> hubKeyed e s'",
        OF _ _ _ _ _ assms(1)])
    show "\<forall>s. hubKeyed e s \<longrightarrow> hubKeyed e s"
      by simp
    show "\<forall>a b c. (hubKeyed e a \<longrightarrow> hubKeyed e b) \<longrightarrow> (hubKeyed e b \<longrightarrow> hubKeyed e c)
        \<longrightarrow> hubKeyed e a \<longrightarrow> hubKeyed e c"
      by simp
    show "\<forall>a x y s s'. CONN_connect e a x y s = Inr s' \<longrightarrow> hubKeyed e s \<longrightarrow> hubKeyed e s'"
      by (auto simp: CONN_connect_def hub_connect_keyed split: if_splits)
    show "\<forall>a cb s s'. CONN_disconnect e a cb s = Inr s' \<longrightarrow> hubKeyed e s \<longrightarrow> hubKeyed e s'"
      by (auto simp: CONN_disconnect_def hub_disconnect_def hubKeyed_def list_all_iff
          split: if_splits)
    show "\<forall>s c v. hubKeyed e s \<longrightarrow> hubKeyed e (s\<lparr>lastCheck := c, lastValue := v\<rparr>)"
      by (simp add: hubKeyed_def)
  qed
  then show ?thesis
    using assms(2) by simp
qed

lemma joined_hub_same_db: "db s' = db s \<Longrightarrow> joined_hub s' = joined_hub s"
  by (simp add: joined_hub_def fun_eq_iff)

lemma fst_joined_hub: "fst (joined_hub s q) = fst q"
  by (simp add: joined_hub_def)

lemma key_joined_hub: "key (snd (snd q)) = Some k \<Longrightarrow> key (snd (joined_hub s q)) = Some k"
  by (simp add: joined_hub_def mergeData_def split: option.splits)

lemma peersInConnection_hub_filter:
  "peersInConnection (s\<lparr>hub := filter (\<lambda>q. fst q \<notin> A) (hub s)\<rparr>)
     = filter (\<lambda>p. fst p \<notin> A) (peersInConnection s)"
proof -
  have j: "joined_hub (s\<lparr>hub := filter (\<lambda>q. fst q \<notin> A) (hub s)\<rparr>) = joined_hub s"
    by (rule joined_hub_same_db) simp
  have c: "(\<lambda>p. fst p \<notin> A) \<circ> joined_hub s = (\<lambda>q. fst q \<notin> A)"
    by (simp add: fun_eq_iff fst_joined_hub)
  show ?thesis
    unfolding peersInConnection_def j filter_map c by (simp add: conj_commute)
qed

lemma disconnect_loop_shrinks:
  assumes "forEachE (\<lambda>p. CONN_disconnect e (fst p) Undefined) ps s = Inr s'"
  shows "hops s' = hops s" and "staging s' = staging s"
    and "set (peersInConnection s') \<subseteq> set (peersInConnection s)"
    and "\<forall>p \<in> set (peersInConnection s'). fst p \<notin> fst ` set ps"
proof -
  have eq: "s' = s\<lparr>hub := filter (\<lambda>q. fst q \<notin> fst ` set ps) (hub s)\<rparr>"
    using assms by (rule forEachE_disconnect)
  show "hops s' = hops s" and "staging s' = staging s"
    by (simp_all add: eq)
  show "set (peersInConnection s') \<subseteq> set (peersInConnection s)"
    unfolding eq peersInConnection_hub_filter by auto
  show "\<forall>p \<in> set (peersInConnection s'). fst p \<notin> fst ` set ps"
    unfolding eq peersInConnection_hub_filter by auto
qed

lemma weBlockThem_hops: "hops s' = hops s \<Longrightarrow> weBlockThem s' = weBlockThem s"
  by (simp add: weBlockThem_def fun_eq_iff split: option.splits)

lemma purgeBlocked_none_left:
  assumes "purgeBlocked e s = Inr s'"
  shows "\<forall>p \<in> set (peersInConnection s'). \<not> weBlockThem s' p"
proof
  fix p assume p: "p \<in> set (peersInConnection s')"
  note l = disconnect_loop_shrinks [OF assms [unfolded purgeBlocked_def]]
  show "\<not> weBlockThem s' p"
  proof
    assume "weBlockThem s' p"
    then have "weBlockThem s p"
      using weBlockThem_hops [OF l(1)] by simp
    moreover have "p \<in> set (peersInConnection s)"
      using p l(3) by blast
    ultimately have "fst p \<in> fst ` set (filter (weBlockThem s) (peersInConnection s))"
      by simp
    then show False
      using l(4) p by blast
  qed
qed

lemma updateHubNow_steps:
  assumes "updateHubNow e s = Inr s'"
  shows "\<forall>p \<in> set (peersInConnection s'). \<not> weBlockThem s' p"
proof -
  from assms obtain s1 s2 s3 s4 where c: "classPasses e s = Inr s1"
    and f: "connectStagedFollowed e s1 = Inr s2"
    and b: "purgeBlocked e s2 = Inr s3"
    and r: "purgeFrustrating e s3 = Inr s4"
    and l: "purgeLongLived e s4 = Inr s'"
    unfolding updateHubNow_def by (blast dest!: thenE_Inr)
  note lr = disconnect_loop_shrinks [OF r [unfolded purgeFrustrating_def]]
  note ll = disconnect_loop_shrinks [OF l [unfolded purgeLongLived_def]]
  have h: "hops s' = hops s3"
    using lr(1) ll(1) by simp
  have "set (peersInConnection s') \<subseteq> set (peersInConnection s3)"
    using lr(3) ll(3) by blast
  moreover have "\<forall>p \<in> set (peersInConnection s3). \<not> weBlockThem s3 p"
    using b by (rule purgeBlocked_none_left)
  ultimately show "\<forall>p \<in> set (peersInConnection s'). \<not> weBlockThem s' p"
    using weBlockThem_hops [OF h] by auto
qed

lemma keyed_not_blocked:
  assumes "hubKeyed e s" and "p \<in> set (peersInConnection s)" and "\<not> weBlockThem s p"
  shows "\<not> spec_blockedAddress e s (fst p)"
proof (cases "getKeyFromAddress e (fst p)")
  case None
  then show ?thesis
    by (simp add: spec_blockedAddress_def)
next
  case (Some k)
  from assms(2) obtain q where q: "q \<in> set (hub s)" and p: "p = joined_hub s q"
    by (auto simp: peersInConnection_def)
  have "getKeyFromAddress e (fst q) = Some k"
    using Some by (simp add: p fst_joined_hub)
  then have "key (snd (snd q)) = Some k"
    using assms(1) q by (auto simp: hubKeyed_def list_all_iff)
  then have "key (snd p) = Some k"
    unfolding p by (rule key_joined_hub)
  then show ?thesis
    using assms(3) Some by (auto simp: spec_blockedAddress_def weBlockThem_def)
qed

text \<open>
  C5, amended. After a tick that was not suppressed and ran to its end, in a node where no
  staged address was in connection (pool invariant 1), no staged record and no peer in
  connection has a blocked key (hops = -1) in its \<open>key\<close> field: \<open>updateStagingNow\<close>
  unstages every staged peer whose key is blocked, and \<open>updateHubNow\<close> disconnects every
  peer in connection whose key is blocked; nothing that follows stages or dials a blocked
  key. In terms of addresses: where the Hub entries carry the key of their address, as
  the entries made by the Hub do, no address of a blocked key is in connection after the
  tick, and no address of a blocked key is staged with a record that carries that key.
\<close>

theorem blocked_purged_by_tick:
  assumes "poolsDisjoint s" and "\<not> suppressed e s" and "updateNow e s = Inr s'"
  shows "(\<forall>p \<in> set (staging (updateStagingNow e s)). \<not> weBlockThem s p)
       \<and> (\<forall>p \<in> set (staging s'). \<not> weBlockThem s' p)
       \<and> (\<forall>p \<in> set (peersInConnection s'). \<not> weBlockThem s' p)
       \<and> (\<forall>p \<in> set (staging s'). key (snd p) = getKeyFromAddress e (fst p) \<longrightarrow>
             \<not> spec_blockedAddress e s' (fst p))
       \<and> (hubKeyed e s \<longrightarrow> hubKeyed e s'
             \<and> (\<forall>p \<in> set (peersInConnection s'). \<not> spec_blockedAddress e s' (fst p)))"
proof -
  let ?m = "updateStagingNow e s"
  have run: "updateHubNow e ?m = Inr s'"
    using assms(2,3) by (auto simp: updateNow_def suppressed_def split: if_splits)
  have only: "?m = s\<lparr>staging := staging ?m\<rparr>"
    by (rule updateStagingNow_result(1) [OF assms(1)])
  have mid: "\<forall>p \<in> set (staging ?m). \<not> weBlockThem s p"
    by (rule updateStagingNow_result(3) [OF assms(1)])
  have hm: "hops ?m = hops s"
    by (subst only) simp
  have hubm: "hub ?m = hub s"
    by (subst only) simp
  note step = updateHubNow_hubStep [OF run]
  note conn = updateHubNow_steps [OF run]
  have h: "hops s' = hops s"
    using step hm by (simp add: hubStep_def)
  have "set (staging s') \<subseteq> set (staging ?m)"
    using step by (simp add: hubStep_def)
  then have st: "\<forall>p \<in> set (staging s'). \<not> weBlockThem s' p"
    using mid weBlockThem_hops [OF h] by auto
  have addr: "\<not> spec_blockedAddress e s' (fst p)"
    if "p \<in> set (staging s')" and "key (snd p) = getKeyFromAddress e (fst p)" for p
    using st that by (auto simp: spec_blockedAddress_def weBlockThem_def split: option.splits)
  have keyed: "hubKeyed e s'" if "hubKeyed e s"
  proof -
    have "hubKeyed e ?m"
      using that by (simp add: hubKeyed_def hubm)
    then show ?thesis
      by (rule updateHubNow_keyed [OF run])
  qed
  have "\<forall>p \<in> set (peersInConnection s'). \<not> spec_blockedAddress e s' (fst p)" if "hubKeyed e s"
    using keyed_not_blocked [OF keyed [OF that]] conn by blast
  then show ?thesis
    using mid st conn addr keyed by blast
qed

theorem blocked_purged_by_tick_witness:
  "poolsDisjoint sampleBlockedNode \<and> \<not> suppressed (sampleEnv 20000) sampleBlockedNode
   \<and> hubKeyed (sampleEnv 20000) sampleBlockedNode
   \<and> map fst (staging sampleBlockedNode) = [fst (samplePeer ''z'' 0), fst (samplePeer ''w'' 0)]
   \<and> map fst (peersInConnection sampleBlockedNode)
       = [fst (samplePeer ''x'' 0), fst (samplePeer ''y'' 0)]
   \<and> (case updateNow (sampleEnv 20000) sampleBlockedNode of Inl err \<Rightarrow> False
       | Inr s' \<Rightarrow> map fst (staging s') = [fst (samplePeer ''w'' 0)]
           \<and> map fst (peersInConnection s') = [fst (samplePeer ''y'' 0)]
           \<and> list_all (\<lambda>p. \<not> weBlockThem s' p) (staging s')
           \<and> list_all (\<lambda>p. \<not> weBlockThem s' p) (peersInConnection s')
           \<and> list_all (\<lambda>p. \<not> spec_blockedAddress (sampleEnv 20000) s' (fst p))
                (peersInConnection s'))
   \<and> poolsDisjoint sampleDialed \<and> \<not> suppressed (sampleEnv 20500) sampleDialed
   \<and> hubKeyed (sampleEnv 20500) sampleDialed
   \<and> db sampleDialed = [samplePeer ''x'' 1000]
   \<and> map (\<lambda>q. (fst q, fst (snd q))) (hub sampleDialed) = [(fst (samplePeer ''x'' 0), Connected)]
   \<and> spec_blockedAddress (sampleEnv 20500) sampleDialed (fst (samplePeer ''x'' 0))
   \<and> (case updateNow (sampleEnv 20500) sampleDialed of Inl err \<Rightarrow> False
       | Inr s' \<Rightarrow> hub s' = [] \<and> staging s' = []
           \<and> list_all (\<lambda>p. \<not> spec_blockedAddress (sampleEnv 20500) s' (fst p))
                (peersInConnection s'))"
proof -
  have pd: "poolsDisjoint sampleBlockedNode"
    by code_simp
  have ns: "\<not> suppressed (sampleEnv 20000) sampleBlockedNode"
    by code_simp
  have hk: "hubKeyed (sampleEnv 20000) sampleBlockedNode"
    by code_simp
  have before: "map fst (staging sampleBlockedNode) = [fst (samplePeer ''z'' 0), fst (samplePeer ''w'' 0)]
      \<and> map fst (peersInConnection sampleBlockedNode)
       = [fst (samplePeer ''x'' 0), fst (samplePeer ''y'' 0)]"
    by code_simp
  have "(case updateNow (sampleEnv 20000) sampleBlockedNode of Inl err \<Rightarrow> None
      | Inr s' \<Rightarrow> Some (map fst (staging s'), map fst (peersInConnection s')))
      = Some ([fst (samplePeer ''w'' 0)], [fst (samplePeer ''y'' 0)])"
    by code_simp
  then obtain s' where run: "updateNow (sampleEnv 20000) sampleBlockedNode = Inr s'"
    and after: "map fst (staging s') = [fst (samplePeer ''w'' 0)]"
      "map fst (peersInConnection s') = [fst (samplePeer ''y'' 0)]"
    by (cases "updateNow (sampleEnv 20000) sampleBlockedNode") auto
  have first: "(case updateNow (sampleEnv 20000) sampleBlockedNode of Inl err \<Rightarrow> False
       | Inr s' \<Rightarrow> map fst (staging s') = [fst (samplePeer ''w'' 0)]
           \<and> map fst (peersInConnection s') = [fst (samplePeer ''y'' 0)]
           \<and> list_all (\<lambda>p. \<not> weBlockThem s' p) (staging s')
           \<and> list_all (\<lambda>p. \<not> weBlockThem s' p) (peersInConnection s')
           \<and> list_all (\<lambda>p. \<not> spec_blockedAddress (sampleEnv 20000) s' (fst p))
                (peersInConnection s'))"
    using after hk blocked_purged_by_tick [OF pd ns run]
    by (simp add: run list_all_iff)
  have pd2: "poolsDisjoint sampleDialed"
    by code_simp
  have ns2: "\<not> suppressed (sampleEnv 20500) sampleDialed"
    by code_simp
  have hk2: "hubKeyed (sampleEnv 20500) sampleDialed"
    by code_simp
  have before2: "db sampleDialed = [samplePeer ''x'' 1000]
      \<and> map (\<lambda>q. (fst q, fst (snd q))) (hub sampleDialed) = [(fst (samplePeer ''x'' 0), Connected)]
      \<and> spec_blockedAddress (sampleEnv 20500) sampleDialed (fst (samplePeer ''x'' 0))"
    by code_simp
  have "(case updateNow (sampleEnv 20500) sampleDialed of Inl err \<Rightarrow> None
      | Inr s' \<Rightarrow> Some (map fst (hub s'), map fst (staging s'))) = Some ([], [])"
    by code_simp
  then obtain s2 where run2: "updateNow (sampleEnv 20500) sampleDialed = Inr s2"
    and after2: "hub s2 = []" "staging s2 = []"
    by (cases "updateNow (sampleEnv 20500) sampleDialed") auto
  have second: "(case updateNow (sampleEnv 20500) sampleDialed of Inl err \<Rightarrow> False
       | Inr s' \<Rightarrow> hub s' = [] \<and> staging s' = []
           \<and> list_all (\<lambda>p. \<not> spec_blockedAddress (sampleEnv 20500) s' (fst p))
                (peersInConnection s'))"
    using after2 hk2 blocked_purged_by_tick [OF pd2 ns2 run2]
    by (simp add: run2 list_all_iff)
  show ?thesis
    using pd ns hk before first pd2 ns2 hk2 before2 second by blast
qed

text \<open>
  C5 as stated fails for Staging: the record that \<open>CONN.stage\<close> makes when it is called
  without data has no \<open>key\<close> field, and the purge of \<open>updateStagingNow\<close> looks at that
  field only. Here the key \<open>@z\<close> is blocked and its address is staged; the tick at time
  20000 runs to its end and the address is still staged.
\<close>

theorem keyless_staged_address_stays:
  "spec_blockedAddress (sampleEnv 20000) sampleKeyless (fst (samplePeer ''z'' 0))
   \<and> poolsDisjoint sampleKeyless \<and> \<not> suppressed (sampleEnv 20000) sampleKeyless
   \<and> map fst (staging sampleKeyless) = [fst (samplePeer ''z'' 0)]
   \<and> (case updateNow (sampleEnv 20000) sampleKeyless of Inl err \<Rightarrow> False
       | Inr s' \<Rightarrow> map fst (staging s') = [fst (samplePeer ''z'' 0)]
           \<and> spec_blockedAddress (sampleEnv 20000) s' (fst (samplePeer ''z'' 0)))"
proof -
  have before: "spec_blockedAddress (sampleEnv 20000) sampleKeyless (fst (samplePeer ''z'' 0))
      \<and> poolsDisjoint sampleKeyless \<and> \<not> suppressed (sampleEnv 20000) sampleKeyless
      \<and> map fst (staging sampleKeyless) = [fst (samplePeer ''z'' 0)]"
    by code_simp
  have "(case updateNow (sampleEnv 20000) sampleKeyless of Inl err \<Rightarrow> None
      | Inr s' \<Rightarrow> Some (map fst (staging s'),
          spec_blockedAddress (sampleEnv 20000) s' (fst (samplePeer ''z'' 0))))
      = Some ([fst (samplePeer ''z'' 0)], True)"
    by code_simp
  then have "(case updateNow (sampleEnv 20000) sampleKeyless of Inl err \<Rightarrow> False
       | Inr s' \<Rightarrow> map fst (staging s') = [fst (samplePeer ''z'' 0)]
           \<and> spec_blockedAddress (sampleEnv 20000) s' (fst (samplePeer ''z'' 0)))"
    by (cases "updateNow (sampleEnv 20000) sampleKeyless") auto
  then show ?thesis
    using before by blast
qed

section \<open>The quota of a class during and after a tick\<close>

lemma peersInConnection_cache:
  "peersInConnection (s\<lparr>lastCheck := c, lastValue := v\<rparr>) = peersInConnection s"
  by (simp add: peersInConnection_def joined_hub_def)









section \<open>The quota engine: the excess rule\<close>

lemma distinct_peersInConnection:
  assumes "distinct (map fst (hub s))"
  shows "distinct (map fst (peersInConnection s))"
proof -
  have "map fst (peersInConnection s)
      = map fst (filter (\<lambda>q. inConnectionState (fst (snd q))) (hub s))"
    by (simp add: peersInConnection_def fst_joined_hub)
  then show ?thesis
    using assms by (simp add: distinct_map_filter)
qed

lemma filter_fst_notin:
  assumes "distinct (map fst xs)" and "set D \<subseteq> set xs"
  shows "filter (\<lambda>p. fst p \<notin> fst ` set D) xs = filter (\<lambda>p. p \<notin> set D) xs"
proof (rule filter_cong [OF refl])
  fix p assume p: "p \<in> set xs"
  have "p \<in> set D" if "fst p \<in> fst ` set D"
  proof -
    from that obtain d where d: "d \<in> set D" and eq: "fst p = fst d"
      by (rule imageE)
    have "inj_on fst (set xs)"
      using assms(1) by (simp add: distinct_map)
    then have "p = d"
      using p d assms(2) eq by (auto dest: inj_onD)
    then show ?thesis
      using d by simp
  qed
  then show "(fst p \<notin> fst ` set D) = (p \<notin> set D)"
    by blast
qed

lemma length_filter_notin:
  assumes "distinct xs" and "distinct D" and "set D \<subseteq> set xs"
  shows "length (filter (\<lambda>p. p \<notin> set D) xs) + length D = length xs"
proof -
  have "{x. x \<in> set D} \<inter> set xs = set D"
    using assms(3) by blast
  then have "length (filter (\<lambda>p. p \<in> set D) xs) = length D"
    using assms(1,2) by (simp add: distinct_length_filter distinct_card)
  then show ?thesis
    using sum_length_filter_compl [of "\<lambda>p. p \<in> set D" xs] by simp
qed

lemma toDisconnect_subset: "set (toDisconnect os up) \<subseteq> set up"
  using set_take_subset [of "nat (max (excess os up) 0)" "sortByStateChange up"]
  by (simp add: toDisconnect_def take'_def sortByStateChange_def)

lemma toDisconnect_distinct: "distinct up \<Longrightarrow> distinct (toDisconnect os up)"
  by (simp add: toDisconnect_def take'_def sortByStateChange_def)

lemma toDisconnect_oldest:
  assumes "p \<in> set (toDisconnect os up)" and "q \<in> set up" and "q \<notin> set (toDisconnect os up)"
  shows "stateChangeOf p \<le> stateChangeOf q"
proof -
  let ?n = "nat (max (excess os up) 0)"
  let ?s = "sortByStateChange up"
  have D: "toDisconnect os up = take ?n ?s"
    by (simp add: toDisconnect_def take'_def)
  have "q \<in> set (take ?n ?s @ drop ?n ?s)"
    using assms(2) by (simp add: sortByStateChange_def)
  then have "q \<in> set (drop ?n ?s)"
    using assms(3) unfolding D by (simp only: set_append) blast
  moreover have "sorted (map stateChangeOf ?s)"
    by (simp add: sortByStateChange_def)
  ultimately show ?thesis
    using assms(1) unfolding D by (blast intro: sorted_take_drop_le)
qed

lemma connect_loop_appends:
  assumes "forEachE (\<lambda>p. CONN_connect e (fst p) (Object (snd p)) Undefined) ps s = Inr s'"
  shows "\<exists>new. hub s' = hub s @ new"
proof (rule connect_loop_rel [where R = "\<lambda>s s'. \<exists>new. hub s' = hub s @ new", OF _ _ _ assms])
  show "\<forall>s. \<exists>new. hub s = hub s @ new"
    by simp
  show "\<forall>a b c. (\<exists>new. hub b = hub a @ new) \<longrightarrow> (\<exists>new. hub c = hub b @ new)
      \<longrightarrow> (\<exists>new. hub c = hub a @ new)"
    by auto
  show "\<forall>a x y s s'. CONN_connect e a x y s = Inr s' \<longrightarrow> (\<exists>new. hub s' = hub s @ new)"
    by (auto simp: CONN_connect_def hub_connect_def Let_def split: if_splits)
qed

lemma excess_no_free_slots:
  assumes "0 \<le> quota os" and "int (length up) > 2 * quota os"
  shows "freeSlots os up = 0" and "int (length (toDisconnect os up)) = int (length up) - quota os"
  using assms
  by (simp_all add: freeSlots_def neverJustOne_def toDisconnect_def excess_def take'_def
      sortByStateChange_def)

lemma no_excess: "int (length up) \<le> 2 * quota os \<Longrightarrow> toDisconnect os up = []"
  by (simp add: toDisconnect_def excess_def take'_def)

text \<open>
  C2. A class pass (\<open>updateTheseConnections\<close>) with a quota that is not negative (every
  class of \<open>updateHubNow\<close> has a positive one), in a Hub that holds each address once,
  where \<open>up\<close> are the peers in connection that match the class predicate and \<open>D\<close> the
  peers that the pass hands to \<open>disconnect\<close>. When more than \<open>2 * quota\<close> peers of the
  class are in connection, \<open>D\<close> has exactly \<open>|up| - quota\<close> peers, after the pass the Hub
  has lost exactly the entries of \<open>D\<close>, the peers in connection are those of before but
  \<open>D\<close>, and \<open>quota\<close> peers of the class are left in connection. When at most \<open>2 * quota\<close>
  are in connection, \<open>D\<close> is empty and every Hub entry is kept. In both cases \<open>D\<close> are
  peers of \<open>up\<close>, and no peer of \<open>up\<close> that is kept has a smaller \<open>stateChange\<close> than a
  disconnected one.
\<close>

theorem excess_disconnects_oldest:
  assumes "0 \<le> quota os" and "distinct (map fst (hub s))"
    and "updateTheseConnections e i test os s = Inr s'"
    and "up = filter test (peersInConnection s)" and "D = toDisconnect os up"
  shows "(int (length up) > 2 * quota os \<longrightarrow>
            int (length D) = int (length up) - quota os
          \<and> hub s' = filter (\<lambda>q. fst q \<notin> fst ` set D) (hub s)
          \<and> peersInConnection s' = filter (\<lambda>p. p \<notin> set D) (peersInConnection s)
          \<and> int (length (filter test (peersInConnection s'))) = quota os)
       \<and> (int (length up) \<le> 2 * quota os \<longrightarrow> D = [] \<and> (\<exists>new. hub s' = hub s @ new))
       \<and> set D \<subseteq> set up
       \<and> (\<forall>p \<in> set D. \<forall>q \<in> set up. q \<notin> set D \<longrightarrow> stateChangeOf p \<le> stateChangeOf q)"
proof -
  let ?down = "filter test (peersConnectable_db s)"
  let ?pic = "peersInConnection s"
  from assms(3) obtain s1 where
    d: "forEachE (\<lambda>p. CONN_disconnect e (fst p) Undefined) D s = Inr s1"
    and c: "forEachE (\<lambda>p. CONN_connect e (fst p) (Object (snd p)) Undefined)
        (fst (toConnect e i os up ?down s1)) (snd (toConnect e i os up ?down s1)) = Inr s'"
    unfolding assms(4,5)
    by (auto simp: updateTheseConnections_def Let_def case_prod_beta dest!: thenE_Inr)
  have s1: "s1 = s\<lparr>hub := filter (\<lambda>q. fst q \<notin> fst ` set D) (hub s)\<rparr>"
    using d by (rule forEachE_disconnect)
  obtain cc v where s2: "snd (toConnect e i os up ?down s1) = s1\<lparr>lastCheck := cc, lastValue := v\<rparr>"
    using toConnect_cache by blast
  have sub: "set D \<subseteq> set up"
    unfolding assms(5) by (rule toDisconnect_subset)
  have old: "\<forall>p \<in> set D. \<forall>q \<in> set up. q \<notin> set D \<longrightarrow> stateChangeOf p \<le> stateChangeOf q"
    unfolding assms(5) by (blast intro: toDisconnect_oldest)
  have many: "int (length D) = int (length up) - quota os
      \<and> hub s' = filter (\<lambda>q. fst q \<notin> fst ` set D) (hub s)
      \<and> peersInConnection s' = filter (\<lambda>p. p \<notin> set D) ?pic
      \<and> int (length (filter test (peersInConnection s'))) = quota os"
    if over: "int (length up) > 2 * quota os"
  proof -
    note ex = excess_no_free_slots [OF assms(1) over]
    have len: "int (length D) = int (length up) - quota os"
      unfolding assms(5) by (rule ex(2))
    have "fst (toConnect e i os up ?down s1) = []"
      by (simp add: toConnect_def case_prod_beta take'_def ex(1))
    then have s': "s' = s1\<lparr>lastCheck := cc, lastValue := v\<rparr>"
      using c unfolding s2 by simp
    have hub': "hub s' = filter (\<lambda>q. fst q \<notin> fst ` set D) (hub s)"
      unfolding s' s1 by simp
    have dp: "distinct (map fst ?pic)"
      using assms(2) by (rule distinct_peersInConnection)
    have subp: "set D \<subseteq> set ?pic"
      using sub unfolding assms(4) by auto
    have "peersInConnection s' = filter (\<lambda>p. fst p \<notin> fst ` set D) ?pic"
      unfolding s' s1 peersInConnection_cache peersInConnection_hub_filter ..
    then have pic': "peersInConnection s' = filter (\<lambda>p. p \<notin> set D) ?pic"
      unfolding filter_fst_notin [OF dp subp] .
    have dup: "distinct up"
      unfolding assms(4) using dp by (simp add: distinct_map)
    have "filter test (peersInConnection s') = filter (\<lambda>p. p \<notin> set D) up"
      unfolding pic' assms(4) by (simp add: conj_commute)
    then have "length (filter test (peersInConnection s')) + length D = length up"
      using length_filter_notin [OF dup _ sub] toDisconnect_distinct [OF dup, of os]
      unfolding assms(5) by simp
    then have "int (length (filter test (peersInConnection s'))) = quota os"
      using len by linarith
    then show ?thesis
      using len hub' pic' by blast
  qed
  have few: "D = [] \<and> (\<exists>new. hub s' = hub s @ new)" if "int (length up) \<le> 2 * quota os"
  proof -
    have D: "D = []"
      unfolding assms(5) using that by (rule no_excess)
    then have "hub s1 = hub s"
      unfolding s1 by simp
    then have "hub (snd (toConnect e i os up ?down s1)) = hub s"
      unfolding s2 by simp
    then show ?thesis
      using connect_loop_appends [OF c] D by simp
  qed
  show ?thesis
    using many few sub old by blast
qed

theorem excess_disconnects_oldest_witness:
  "0 \<le> quota (sampleOpts 1) \<and> distinct (map fst (hub sampleCrowded))
   \<and> filter (\<lambda>p. True) (peersInConnection sampleCrowded)
       = [samplePeer ''a'' 30, samplePeer ''b'' 10, samplePeer ''c'' 20]
   \<and> toDisconnect (sampleOpts 1) [samplePeer ''a'' 30, samplePeer ''b'' 10, samplePeer ''c'' 20]
       = [samplePeer ''b'' 10, samplePeer ''c'' 20]
   \<and> (case updateTheseConnections (sampleEnv 20000) 0 (\<lambda>p. True) (sampleOpts 1) sampleCrowded of
         Inl err \<Rightarrow> False
       | Inr s' \<Rightarrow> peersInConnection s' = [samplePeer ''a'' 30]
           \<and> map fst (hub s') = [fst (samplePeer ''a'' 30)]
           \<and> int (length (filter (\<lambda>p. True) (peersInConnection s'))) = 1)
   \<and> distinct (map fst (hub sampleBlockedNode))
   \<and> length (filter (\<lambda>p. True) (peersInConnection sampleBlockedNode)) = 2
   \<and> (case updateTheseConnections (sampleEnv 20000) 0 (\<lambda>p. True) (sampleOpts 1)
              sampleBlockedNode of
         Inl err \<Rightarrow> False
       | Inr s' \<Rightarrow> (\<exists>new. hub s' = hub sampleBlockedNode @ new))"
proof -
  let ?up = "[samplePeer ''a'' 30, samplePeer ''b'' 10, samplePeer ''c'' 20]"
  let ?D = "[samplePeer ''b'' 10, samplePeer ''c'' 20]"
  have q: "0 \<le> quota (sampleOpts 1)"
    by (simp add: sampleOpts_def)
  have dh: "distinct (map fst (hub sampleCrowded))"
    by code_simp
  have up: "?up = filter (\<lambda>p. True) (peersInConnection sampleCrowded)"
    by code_simp
  have D: "?D = toDisconnect (sampleOpts 1) ?up"
    by code_simp
  have "(case updateTheseConnections (sampleEnv 20000) 0 (\<lambda>p. True) (sampleOpts 1) sampleCrowded of
         Inl err \<Rightarrow> None | Inr s' \<Rightarrow> Some ()) = Some ()"
    by code_simp
  then obtain s' where
    run: "updateTheseConnections (sampleEnv 20000) 0 (\<lambda>p. True) (sampleOpts 1) sampleCrowded = Inr s'"
    by (cases "updateTheseConnections (sampleEnv 20000) 0 (\<lambda>p. True) (sampleOpts 1) sampleCrowded")
      auto
  have over: "int (length ?up) > 2 * quota (sampleOpts 1)"
    by (simp add: sampleOpts_def)
  note r = excess_disconnects_oldest [OF q dh run up D]
  have hub': "hub s' = filter (\<lambda>q. fst q \<notin> fst ` set ?D) (hub sampleCrowded)"
    and pic': "peersInConnection s' = filter (\<lambda>p. p \<notin> set ?D) (peersInConnection sampleCrowded)"
    and cnt: "int (length (filter (\<lambda>p. True) (peersInConnection s'))) = quota (sampleOpts 1)"
    using r over by blast+
  have "filter (\<lambda>p. p \<notin> set ?D) (peersInConnection sampleCrowded) = [samplePeer ''a'' 30]"
    by code_simp
  then have a: "peersInConnection s' = [samplePeer ''a'' 30]"
    unfolding pic' .
  have "map fst (filter (\<lambda>q. fst q \<notin> fst ` set ?D) (hub sampleCrowded)) = [fst (samplePeer ''a'' 30)]"
    by code_simp
  then have b: "map fst (hub s') = [fst (samplePeer ''a'' 30)]"
    unfolding hub' .
  have first: "(case updateTheseConnections (sampleEnv 20000) 0 (\<lambda>p. True) (sampleOpts 1) sampleCrowded of
         Inl err \<Rightarrow> False
       | Inr s' \<Rightarrow> peersInConnection s' = [samplePeer ''a'' 30]
           \<and> map fst (hub s') = [fst (samplePeer ''a'' 30)]
           \<and> int (length (filter (\<lambda>p. True) (peersInConnection s'))) = 1)"
    unfolding run using a b cnt by (simp add: sampleOpts_def)
  have dh2: "distinct (map fst (hub sampleBlockedNode))"
    by code_simp
  have two: "length (filter (\<lambda>p. True) (peersInConnection sampleBlockedNode)) = 2"
    by code_simp
  have "(case updateTheseConnections (sampleEnv 20000) 0 (\<lambda>p. True) (sampleOpts 1) sampleBlockedNode of
         Inl err \<Rightarrow> None | Inr s' \<Rightarrow> Some ()) = Some ()"
    by code_simp
  then obtain s2 where
    run2: "updateTheseConnections (sampleEnv 20000) 0 (\<lambda>p. True) (sampleOpts 1) sampleBlockedNode
      = Inr s2"
    by (cases "updateTheseConnections (sampleEnv 20000) 0 (\<lambda>p. True) (sampleOpts 1)
        sampleBlockedNode") auto
  have "\<exists>new. hub s2 = hub sampleBlockedNode @ new"
    using excess_disconnects_oldest [OF q dh2 run2 refl refl] two
    by (simp add: sampleOpts_def)
  then have second: "(case updateTheseConnections (sampleEnv 20000) 0 (\<lambda>p. True) (sampleOpts 1)
              sampleBlockedNode of
         Inl err \<Rightarrow> False
       | Inr s' \<Rightarrow> (\<exists>new. hub s' = hub sampleBlockedNode @ new))"
    unfolding run2 by simp
  show ?thesis
    using q dh up [symmetric] D [symmetric] first dh2 two second by blast
qed

section \<open>gossip.ts: the legacy add\<close>

text \<open>
  C10. When the address validates and its key is the local identity (\<open>ssb.id\<close>),
  \<open>add\<close> returns \<open>undefined\<close> and leaves the node as it is, whatever the source: the
  address DB is not written and no notification is emitted.
\<close>

theorem add_self_changes_nothing:
  assumes "validateAddr r addr = Inr (a, parsed)" and "key parsed = Some (ssb_id (node g))"
  shows "add r addr src g = Inr (None, g)"
  using assms by (simp add: add_def)

theorem add_self_changes_nothing_witness:
  "validateAddr sampleRef (AddrString ''net:me.example:8008~shs:me'')
     = Inr (''net:me.example:8008~shs:me'', emptyData\<lparr>key := Some ''@me.ed25519''\<rparr>)
   \<and> key (emptyData\<lparr>key := Some ''@me.ed25519''\<rparr>) = Some (ssb_id (node sampleGossip))
   \<and> add sampleRef (AddrString ''net:me.example:8008~shs:me'') (Some ''pub'') sampleGossip
     = Inr (None, sampleGossip)
   \<and> (case add sampleRef (AddrString ''net:you.example:8008~shs:you'') (Some ''pub'')
              sampleGossip of
         Inl err \<Rightarrow> None
       | Inr res \<Rightarrow> Some (map fst (db (node (snd res))), map n_type (notified (snd res))))
     = Some ([''net:you.example:8008~shs:you''], [''discover''])"
proof -
  have v: "validateAddr sampleRef (AddrString ''net:me.example:8008~shs:me'')
     = Inr (''net:me.example:8008~shs:me'', emptyData\<lparr>key := Some ''@me.ed25519''\<rparr>)"
    by code_simp
  have k: "key (emptyData\<lparr>key := Some ''@me.ed25519''\<rparr>) = Some (ssb_id (node sampleGossip))"
    by (simp add: sampleGossip_def sampleState_def)
  have other: "(case add sampleRef (AddrString ''net:you.example:8008~shs:you'') (Some ''pub'')
              sampleGossip of
         Inl err \<Rightarrow> None
       | Inr res \<Rightarrow> Some (map fst (db (node (snd res))), map n_type (notified (snd res))))
     = Some ([''net:you.example:8008~shs:you''], [''discover''])"
    by code_simp
  show ?thesis
    using v k other add_self_changes_nothing [OF v k, of "Some ''pub''"]
    by simp
qed

end
